theory Spec2Isabelle
  imports Main
begin

section \<open>Exceptions and results\<close>

text \<open>
  The exceptions the program can raise.  \<open>ValueError\<close> carries the arguments it is
  raised with.  A function that can raise returns \<open>error + 'a\<close>, where \<open>Inl\<close> is
  the raised exception and \<open>Inr\<close> the returned value.
\<close>

datatype error =
    NegativeTimestampException
  | ValueError "string list"
  | RuntimeError string
  | IndexError

section \<open>Python built-ins on strings and integers\<close>

text \<open>
  A Python \<^verbatim>\<open>str\<close> is modelled as a \<^typ>\<open>string\<close>, each \<^typ>\<open>char\<close> standing for
  the code point of the same number (0 to 255).  The classifications below are the ones
  Python gives to these code points.  Integers are unbounded, and the interpreter is
  taken with its default setting for the conversion between integers and decimal texts.
\<close>

definition code :: "char \<Rightarrow> nat" where
  "code c = of_char c"

text \<open>\<^verbatim>\<open>str.isspace\<close> on one character: TAB, LF, VT, FF, CR, FS, GS, RS, US, space, NEL, NBSP.\<close>

definition isspace :: "char \<Rightarrow> bool" where
  "isspace c = ((9 \<le> code c \<and> code c \<le> 13) \<or> (28 \<le> code c \<and> code c \<le> 32)
                \<or> code c = 133 \<or> code c = 160)"

text \<open>\<^verbatim>\<open>s.strip()\<close>: leading and trailing whitespace removed.\<close>

definition lstrip :: "string \<Rightarrow> string" where
  "lstrip s = dropWhile isspace s"

definition rstrip :: "string \<Rightarrow> string" where
  "rstrip s = rev (dropWhile isspace (rev s))"

definition strip :: "string \<Rightarrow> string" where
  "strip s = lstrip (rstrip s)"

text \<open>
  The decimal digits \<^verbatim>\<open>0\<close> to \<^verbatim>\<open>9\<close>, and the characters \<^verbatim>\<open>str.isdigit\<close> accepts:
  the decimal digits and the superscripts two, three and one (code points 178, 179, 185).
\<close>

definition isdecimal :: "char \<Rightarrow> bool" where
  "isdecimal c = (48 \<le> code c \<and> code c \<le> 57)"

definition isdigit_chr :: "char \<Rightarrow> bool" where
  "isdigit_chr c = (isdecimal c \<or> code c = 178 \<or> code c = 179 \<or> code c = 185)"

definition isdigit :: "string \<Rightarrow> bool" where
  "isdigit s = (s \<noteq> [] \<and> list_all isdigit_chr s)"

definition digit_value :: "char \<Rightarrow> int" where
  "digit_value c = int (code c) - 48"

definition decimal_value :: "string \<Rightarrow> int" where
  "decimal_value s = foldl (\<lambda>acc c. 10 * acc + digit_value c) 0 s"

text \<open>The decimal digits of a natural number, the most significant first.\<close>

definition digit_chr :: "nat \<Rightarrow> char" where
  "digit_chr d = char_of (48 + d)"

fun str_nat :: "nat \<Rightarrow> string" where
  "str_nat n = (if n < 10 then [digit_chr n] else str_nat (n div 10) @ [digit_chr (n mod 10)])"

declare str_nat.simps [simp del]

text \<open>
  The interpreter (CPython 3.11 and later) refuses to convert between an integer and a
  decimal text of more than \<^verbatim>\<open>sys.get_int_max_str_digits()\<close> digits, 4300 by
  default, and raises \<^verbatim>\<open>ValueError\<close> instead, with these messages.
\<close>

definition int_max_str_digits :: nat where
  "int_max_str_digits = 4300"

definition int_limit_error :: "nat \<Rightarrow> error" where
  "int_limit_error digits =
     ValueError [''Exceeds the limit ('' @ str_nat int_max_str_digits
       @ '' digits) for integer string conversion: value has '' @ str_nat digits
       @ '' digits; use sys.set_int_max_str_digits() to increase the limit'']"

definition str_limit_error :: error where
  "str_limit_error =
     ValueError [''Exceeds the limit ('' @ str_nat int_max_str_digits
       @ '' digits) for integer string conversion; use sys.set_int_max_str_digits() to increase the limit'']"

text \<open>
  \<^verbatim>\<open>int(s)\<close> for the strings the program passes to it: the digit groups of the
  timestamp pattern, and lines for which \<^verbatim>\<open>isdigit()\<close> holds.  The decimal digits at
  the start of the string are counted first, and more of them than the limit raise
  \<^verbatim>\<open>ValueError\<close>; then an empty string, or a character that is not a decimal digit,
  raises \<^verbatim>\<open>ValueError\<close> with the string quoted, cut after 200 characters; otherwise
  the decimal value is returned.  (Signs, underscores and surrounding blanks, which
  \<^verbatim>\<open>int()\<close> also accepts, never reach it in this program and are not modelled.)
\<close>

definition py_int :: "string \<Rightarrow> error + int" where
  "py_int s =
     (let digits = length (takeWhile isdecimal s) in
      if int_max_str_digits < digits then Inl (int_limit_error digits)
      else if s = [] \<or> digits < length s
      then Inl (ValueError [''invalid literal for int() with base 10: ''
                             @ take 200 ([CHR 0x27] @ s @ [CHR 0x27])])
      else Inr (decimal_value s))"

text \<open>
  \<^verbatim>\<open>str(n)\<close> for an integer, which is also how an f-string formats it: its decimal
  digits, after a minus sign when negative; more digits than the limit raise
  \<^verbatim>\<open>ValueError\<close>.
\<close>

definition py_str :: "int \<Rightarrow> error + string" where
  "py_str i =
     (let digits = str_nat (nat \<bar>i\<bar>) in
      if int_max_str_digits < length digits then Inl str_limit_error
      else Inr (if i < 0 then CHR ''-'' # digits else digits))"

text \<open>
  \<^verbatim>\<open>s.zfill(width)\<close>: zeros added on the left up to \<open>width\<close> characters, after the
  sign when the string starts with one; a string already that long is returned as it is.
\<close>

definition zfill :: "string \<Rightarrow> nat \<Rightarrow> string" where
  "zfill s width =
     (if width \<le> length s then s
      else case s of
             [] \<Rightarrow> replicate width (CHR ''0'')
           | c # cs \<Rightarrow>
               if c = CHR ''+'' \<or> c = CHR ''-''
               then c # replicate (width - length s) (CHR ''0'') @ cs
               else replicate (width - length s) (CHR ''0'') @ s)"

text \<open>\<^verbatim>\<open>divmod(a, b)\<close>: floor division and its remainder.\<close>

definition divmod :: "int \<Rightarrow> int \<Rightarrow> int \<times> int" where
  "divmod a b = (a div b, a mod b)"

section \<open>Regular expressions\<close>

text \<open>
  The pattern of \<^verbatim>\<open>Timestamp.from_str\<close> is embedded with backtracking matchers.  A
  matcher is given whether it stands at the start of the subject and the rest of the
  subject; it returns, in the order in which Python's engine tries them, every way of
  matching a prefix of the rest: the matched text and the texts of the groups closed
  in it.
\<close>

type_synonym matcher = "bool \<Rightarrow> string \<Rightarrow> (string \<times> string list) list"

definition re_empty :: matcher where
  "re_empty at_start s = [([], [])]"

text \<open>\<^verbatim>\<open>^\<close> matches at the start of the subject.\<close>

definition re_bol :: matcher where
  "re_bol at_start s = (if at_start then [([], [])] else [])"

text \<open>\<^verbatim>\<open>$\<close> matches at the end of the subject and before a newline that ends it.\<close>

definition re_eol :: matcher where
  "re_eol at_start s = (if s = [] \<or> s = [CHR 0x0A] then [([], [])] else [])"

text \<open>A literal character, a set \<^verbatim>\<open>[abc]\<close> and a range \<^verbatim>\<open>[a-b]\<close>.\<close>

definition re_chr :: "char \<Rightarrow> matcher" where
  "re_chr c at_start s = (case s of [] \<Rightarrow> [] | x # _ \<Rightarrow> if x = c then [([x], [])] else [])"

definition re_set :: "string \<Rightarrow> matcher" where
  "re_set cs at_start s = (case s of [] \<Rightarrow> [] | x # _ \<Rightarrow> if x \<in> set cs then [([x], [])] else [])"

definition re_range :: "char \<Rightarrow> char \<Rightarrow> matcher" where
  "re_range lo hi at_start s =
     (case s of [] \<Rightarrow> []
      | x # _ \<Rightarrow> if code lo \<le> code x \<and> code x \<le> code hi then [([x], [])] else [])"

text \<open>Concatenation: every match of the first, each followed by every match of the second.\<close>

definition re_seq :: "matcher \<Rightarrow> matcher \<Rightarrow> matcher" where
  "re_seq m1 m2 at_start s =
     concat (map (\<lambda>(p1, g1).
        map (\<lambda>(p2, g2). (p1 @ p2, g1 @ g2))
            (m2 (at_start \<and> p1 = []) (drop (length p1) s)))
       (m1 at_start s))"

text \<open>\<^verbatim>\<open>a|b\<close> tries the left branch first; the greedy \<^verbatim>\<open>a?\<close> tries \<^verbatim>\<open>a\<close> first.\<close>

definition re_alt :: "matcher \<Rightarrow> matcher \<Rightarrow> matcher" where
  "re_alt m1 m2 at_start s = m1 at_start s @ m2 at_start s"

definition re_opt :: "matcher \<Rightarrow> matcher" where
  "re_opt m = re_alt m re_empty"

text \<open>The greedy \<^verbatim>\<open>a{lo,hi}\<close>: \<open>lo\<close> copies, then up to \<open>hi - lo\<close> more, the most first.\<close>

primrec re_exactly :: "nat \<Rightarrow> matcher \<Rightarrow> matcher" where
  "re_exactly 0 m = re_empty"
| "re_exactly (Suc k) m = re_seq m (re_exactly k m)"

primrec re_upto :: "nat \<Rightarrow> matcher \<Rightarrow> matcher" where
  "re_upto 0 m = re_empty"
| "re_upto (Suc k) m = re_opt (re_seq m (re_upto k m))"

definition re_repeat :: "nat \<Rightarrow> nat \<Rightarrow> matcher \<Rightarrow> matcher" where
  "re_repeat lo hi m = re_seq (re_exactly lo m) (re_upto (hi - lo) m)"

text \<open>A capturing group \<^verbatim>\<open>(a)\<close> records the text it matched, before the groups inside it.\<close>

definition re_group :: "matcher \<Rightarrow> matcher" where
  "re_group m at_start s = map (\<lambda>(p, g). (p, p # g)) (m at_start s)"

definition re_concat :: "matcher list \<Rightarrow> matcher" where
  "re_concat ms = foldr re_seq ms re_empty"

text \<open>
  \<^verbatim>\<open>re.fullmatch(pattern, s)\<close>: the first match, in the engine's order, that takes the
  whole subject; the match object lists the whole match (index 0) and the groups.
\<close>

definition fullmatch :: "matcher \<Rightarrow> string \<Rightarrow> string list option" where
  "fullmatch m s =
     (case filter (\<lambda>(p, g). p = s) (m True s) of
        [] \<Rightarrow> None
      | (p, g) # _ \<Rightarrow> Some (p # g))"

text \<open>\<^verbatim>\<open>matches[i]\<close> raises \<^verbatim>\<open>IndexError\<close> when the pattern has no group \<open>i\<close>.\<close>

definition match_group :: "string list \<Rightarrow> nat \<Rightarrow> error + string" where
  "match_group matches i = (if i < length matches then Inr (matches ! i) else Inl IndexError)"

section \<open>Timestamp\<close>

record Timestamp =
  millis :: int

text \<open>
  \<^verbatim>\<open>
  r"^([01]?[0-9]|2[0-3]):([0-5]?[0-9]):([0-5]?[0-9]),([0-9]{1,3})$"
  \<close>
\<close>

definition re_digit :: matcher where
  "re_digit = re_range (CHR ''0'') (CHR ''9'')"

text \<open>\<^verbatim>\<open>[01]?[0-9]|2[0-3]\<close>\<close>

definition re_hours :: matcher where
  "re_hours = re_alt (re_seq (re_opt (re_set ''01'')) re_digit)
                     (re_seq (re_chr (CHR ''2'')) (re_range (CHR ''0'') (CHR ''3'')))"

text \<open>\<^verbatim>\<open>[0-5]?[0-9]\<close>\<close>

definition re_sixty :: matcher where
  "re_sixty = re_seq (re_opt (re_range (CHR ''0'') (CHR ''5''))) re_digit"

text \<open>\<^verbatim>\<open>[0-9]{1,3}\<close>\<close>

definition re_millis :: matcher where
  "re_millis = re_repeat 1 3 re_digit"

definition timestamp_re :: matcher where
  "timestamp_re =
     re_concat
      [re_bol,
       re_group re_hours, re_chr (CHR '':''),
       re_group re_sixty, re_chr (CHR '':''),
       re_group re_sixty, re_chr (CHR '',''),
       re_group re_millis,
       re_eol]"

text \<open>
  \<^verbatim>\<open>
  def from_str(cls, timestamp_str: str) -> Timestamp:
      matches = re.fullmatch(r"...", timestamp_str)
      if matches is None:
          raise ValueError(f"{timestamp_str} is not a valid timestamp")
      hours, minutes, seconds, millis = (
          int(matches[1]), int(matches[2]), int(matches[3]), int(matches[4]))
      total_millis = (
          millis + 1000 * seconds + 60 * 1000 * minutes + 60 * 60 * 1000 * hours)
      return Timestamp(total_millis)
  \<close>
\<close>

definition bind :: "error + 'a \<Rightarrow> ('a \<Rightarrow> error + 'b) \<Rightarrow> error + 'b" where
  "bind r f = (case r of Inl e \<Rightarrow> Inl e | Inr x \<Rightarrow> f x)"

definition from_str :: "string \<Rightarrow> error + Timestamp" where
  "from_str timestamp_str =
     (case fullmatch timestamp_re timestamp_str of
        None \<Rightarrow> Inl (ValueError [timestamp_str @ '' is not a valid timestamp''])
      | Some matches \<Rightarrow>
          bind (bind (match_group matches 1) py_int) (\<lambda>hours.
          bind (bind (match_group matches 2) py_int) (\<lambda>minutes.
          bind (bind (match_group matches 3) py_int) (\<lambda>seconds.
          bind (bind (match_group matches 4) py_int) (\<lambda>ms.
          Inr \<lparr>millis = ms + 1000 * seconds + 60 * 1000 * minutes + 60 * 60 * 1000 * hours\<rparr>)))))"

text \<open>
  \<^verbatim>\<open>
  def __str__(self) -> str:
      hours, rest = divmod(self.millis, 60 * 60 * 1000)
      minutes, rest = divmod(rest, 60 * 1000)
      seconds, millis = divmod(rest, 1000)
      return f"{str(hours).zfill(2)}:{str(minutes).zfill(2)}:{str(seconds).zfill(2)},{str(millis).zfill(3)}"
  \<close>
\<close>

definition Timestamp_str :: "Timestamp \<Rightarrow> error + string" where
  "Timestamp_str self =
     (case divmod (millis self) (60 * 60 * 1000) of (hours, rest) \<Rightarrow>
      case divmod rest (60 * 1000) of (minutes, rest) \<Rightarrow>
      case divmod rest 1000 of (seconds, ms) \<Rightarrow>
        bind (py_str hours) (\<lambda>h.
        bind (py_str minutes) (\<lambda>m.
        bind (py_str seconds) (\<lambda>s.
        bind (py_str ms) (\<lambda>d.
        Inr (zfill h 2 @ '':'' @ zfill m 2 @ '':'' @ zfill s 2 @ '','' @ zfill d 3))))))"

text \<open>
  \<^verbatim>\<open>
  def delayed_by(self, millis: int, clamp_to_zero: bool) -> Timestamp:
      if self.millis + millis < 0 and not clamp_to_zero:
          raise NegativeTimestampException()
      else:
          return Timestamp(max(self.millis + millis, 0))
  \<close>
\<close>

definition delayed_by :: "Timestamp \<Rightarrow> int \<Rightarrow> bool \<Rightarrow> error + Timestamp" where
  "delayed_by self ms clamp_to_zero =
     (if millis self + ms < 0 \<and> \<not> clamp_to_zero
      then Inl NegativeTimestampException
      else Inr \<lparr>millis = max (millis self + ms) 0\<rparr>)"

section \<open>Subtitle\<close>

text \<open>The fields \<^verbatim>\<open>end\<close> and \<^verbatim>\<open>text\<close> of the source carry a prime here.\<close>

record Subtitle =
  number :: int
  start :: Timestamp
  end' :: Timestamp
  text' :: "string list"

section \<open>The parser\<close>

datatype ParserState = NEW_SUBTITLE | TIMESTAMPS | TEXT

text \<open>The local variables of \<^verbatim>\<open>parse_srt_file\<close>.\<close>

record parser =
  state :: ParserState
  subtitles :: "Subtitle list"
  cur_number :: "int option"
  cur_start :: "Timestamp option"
  cur_end :: "Timestamp option"
  cur_text :: "string list"

definition parser_init :: parser where
  "parser_init = \<lparr>state = NEW_SUBTITLE, subtitles = [], cur_number = None,
                   cur_start = None, cur_end = None, cur_text = []\<rparr>"

text \<open>
  \<^verbatim>\<open>s.split(sep)\<close> for a non-empty separator (the program's is \<^verbatim>\<open>-->\<close>): the subject
  is cut at every occurrence of \<open>sep\<close>, found from left to right without overlap.
  \<open>cur\<close> is the part read since the last cut.
\<close>

function split_from :: "string \<Rightarrow> string \<Rightarrow> string \<Rightarrow> string list" where
  "split_from sep cur [] = [cur]"
| "split_from sep cur (c # cs) =
     (if sep \<noteq> [] \<and> take (length sep) (c # cs) = sep
      then cur # split_from sep [] (drop (length sep) (c # cs))
      else split_from sep (cur @ [c]) cs)"
  by pat_completeness auto
termination
  by (relation "measure (\<lambda>(sep, cur, s). length s)") auto

definition py_split :: "string \<Rightarrow> string \<Rightarrow> string list" where
  "py_split s sep = split_from sep [] s"

text \<open>
  The body of the loop \<^verbatim>\<open>for line in file\<close>, on one line:
  \<^verbatim>\<open>
  line = line.strip()
  if state == ParserState.NEW_SUBTITLE:
      if len(line) == 0:
          continue
      elif not line.isdigit():
          raise ValueError("expected a number, got", line)
      else:
          number = int(line)
          state = ParserState.TIMESTAMPS
  elif state == ParserState.TIMESTAMPS:
      timestamps = line.split("-->")
      if len(timestamps) != 2:
          raise ValueError("expected 2 timestamps separated by '-->', got", line)
      start = Timestamp.from_str(timestamps[0].strip())
      end = Timestamp.from_str(timestamps[1].strip())
      state = ParserState.TEXT
  elif state == ParserState.TEXT:
      if len(line) == 0:
          if len(text) == 0:
              raise ValueError("expected at least one line of text after timestamps")
          if number is None or start is None or end is None:
              raise RuntimeError("invalid state")
          subtitles.append(Subtitle(number, start, end, text))
          number, start, end, text = None, None, None, []
          state = ParserState.NEW_SUBTITLE
      else:
          text.append(line)
  \<close>
\<close>

definition parse_line :: "parser \<Rightarrow> string \<Rightarrow> error + parser" where
  "parse_line p raw =
     (let line = strip raw in
      case state p of
        NEW_SUBTITLE \<Rightarrow>
          if length line = 0 then Inr p
          else if \<not> isdigit line then Inl (ValueError [''expected a number, got'', line])
          else bind (py_int line) (\<lambda>n. Inr (p\<lparr>cur_number := Some n, state := TIMESTAMPS\<rparr>))
      | TIMESTAMPS \<Rightarrow>
          let timestamps = py_split line ''-->'' in
          if length timestamps \<noteq> 2
          then Inl (ValueError [''expected 2 timestamps separated by '' @ [CHR 0x27] @ ''-->''
                                  @ [CHR 0x27] @ '', got'', line])
          else bind (from_str (strip (timestamps ! 0))) (\<lambda>s.
               bind (from_str (strip (timestamps ! 1))) (\<lambda>e.
               Inr (p\<lparr>cur_start := Some s, cur_end := Some e, state := TEXT\<rparr>)))
      | TEXT \<Rightarrow>
          if length line = 0 then
            if length (cur_text p) = 0
            then Inl (ValueError [''expected at least one line of text after timestamps''])
            else (case (cur_number p, cur_start p, cur_end p) of
                    (Some n, Some s, Some e) \<Rightarrow>
                      Inr (p\<lparr>subtitles := subtitles p
                                @ [\<lparr>number = n, start = s, end' = e, text' = cur_text p\<rparr>],
                             cur_number := None, cur_start := None, cur_end := None,
                             cur_text := [], state := NEW_SUBTITLE\<rparr>)
                  | _ \<Rightarrow> Inl (RuntimeError ''invalid state''))
          else Inr (p\<lparr>cur_text := cur_text p @ [line]\<rparr>))"

text \<open>The loop stops at the first exception.\<close>

fun parse_lines :: "parser \<Rightarrow> string list \<Rightarrow> error + parser" where
  "parse_lines p [] = Inr p"
| "parse_lines p (raw # file) = bind (parse_line p raw) (\<lambda>p'. parse_lines p' file)"

text \<open>
  After the loop:
  \<^verbatim>\<open>
  if state == ParserState.TIMESTAMPS:
      raise ValueError("file ended in the middle of incomplete subtitle")
  if state == ParserState.TEXT:
      if len(text) == 0:
          raise ValueError("file ended in the middle of incomplete subtitle")
      if number is None or start is None or end is None:
          raise RuntimeError("invalid state")
      subtitles.append(Subtitle(number, start, end, text))
  return subtitles
  \<close>
\<close>

definition parse_end :: "parser \<Rightarrow> error + Subtitle list" where
  "parse_end p =
     (if state p = TIMESTAMPS
      then Inl (ValueError [''file ended in the middle of incomplete subtitle''])
      else if state p = TEXT then
        if length (cur_text p) = 0
        then Inl (ValueError [''file ended in the middle of incomplete subtitle''])
        else (case (cur_number p, cur_start p, cur_end p) of
                (Some n, Some s, Some e) \<Rightarrow>
                  Inr (subtitles p @ [\<lparr>number = n, start = s, end' = e, text' = cur_text p\<rparr>])
              | _ \<Rightarrow> Inl (RuntimeError ''invalid state''))
      else Inr (subtitles p))"

text \<open>The file is the list of its lines, as iterating over it gives them.\<close>

definition parse_srt_file :: "string list \<Rightarrow> error + Subtitle list" where
  "parse_srt_file file = bind (parse_lines parser_init file) parse_end"

section \<open>The delay transform\<close>

text \<open>
  \<^verbatim>\<open>
  def delay_subtitles(subtitles: List[Subtitle], millis: int) -> List[Subtitle]:
      rv = []
      for sub in subtitles:
          try:
              start, end = (
                  sub.start.delayed_by(millis, clamp_to_zero=True),
                  sub.end.delayed_by(millis, clamp_to_zero=False),
              )
              rv.append(Subtitle(len(rv) + 1, start, end, sub.text.copy()))
          except NegativeTimestampException:
              print(f"End of subtitle {sub.number} was advanced before 00:00:00,000 so the whole subtitle was removed.")
      return rv
  \<close>
  The state of the loop is \<open>rv\<close> and the lines printed so far.  The handler catches
  \<open>NegativeTimestampException\<close> only: any other exception leaves the function, and so
  does an exception raised in the handler, where the f-string formats the number.
\<close>

definition removal_notice :: "Subtitle \<Rightarrow> error + string" where
  "removal_notice sub =
     bind (py_str (number sub)) (\<lambda>n.
     Inr (''End of subtitle '' @ n
            @ '' was advanced before 00:00:00,000 so the whole subtitle was removed.''))"

definition delay_one ::
  "int \<Rightarrow> Subtitle list \<times> string list \<Rightarrow> Subtitle \<Rightarrow> error + Subtitle list \<times> string list" where
  "delay_one ms st sub =
     (case st of (rv, printed) \<Rightarrow>
       (case bind (delayed_by (start sub) ms True) (\<lambda>s.
             bind (delayed_by (end' sub) ms False) (\<lambda>e.
             Inr (rv @ [\<lparr>number = int (length rv) + 1, start = s, end' = e,
                          text' = text' sub\<rparr>])))
        of Inr rv' \<Rightarrow> Inr (rv', printed)
         | Inl exn \<Rightarrow>
             if exn = NegativeTimestampException
             then bind (removal_notice sub) (\<lambda>notice. Inr (rv, printed @ [notice]))
             else Inl exn))"

fun delay_loop ::
  "int \<Rightarrow> Subtitle list \<times> string list \<Rightarrow> Subtitle list \<Rightarrow> error + Subtitle list \<times> string list" where
  "delay_loop ms st [] = Inr st"
| "delay_loop ms st (sub # subs) = bind (delay_one ms st sub) (\<lambda>st'. delay_loop ms st' subs)"

text \<open>The result is the returned list and the lines printed.\<close>

definition delay_subtitles :: "Subtitle list \<Rightarrow> int \<Rightarrow> error + Subtitle list \<times> string list" where
  "delay_subtitles subs ms = delay_loop ms ([], []) subs"

section \<open>The specification's notions\<close>

subsection \<open>Timestamp texts\<close>

text \<open>
  The pattern of a timestamp in the words of the specification: one or two hour digits
  of value 0 to 23, a colon, one or two minute digits of value 0 to 59, a colon, one or
  two second digits of value 0 to 59, a comma, and one to three millisecond digits.
\<close>

definition hours_text :: "string \<Rightarrow> bool" where
  "hours_text h =
     ((length h = 1 \<or> length h = 2) \<and> list_all isdecimal h \<and> decimal_value h \<le> 23)"

definition sixty_text :: "string \<Rightarrow> bool" where
  "sixty_text m =
     ((length m = 1 \<or> length m = 2) \<and> list_all isdecimal m \<and> decimal_value m \<le> 59)"

definition millis_text :: "string \<Rightarrow> bool" where
  "millis_text d = (1 \<le> length d \<and> length d \<le> 3 \<and> list_all isdecimal d)"

definition timestamp_fields :: "string \<Rightarrow> string \<Rightarrow> string \<Rightarrow> string \<Rightarrow> bool" where
  "timestamp_fields h m sec d =
     (hours_text h \<and> sixty_text m \<and> sixty_text sec \<and> millis_text d)"

definition timestamp_text :: "string \<Rightarrow> string \<Rightarrow> string \<Rightarrow> string \<Rightarrow> string" where
  "timestamp_text h m sec d = h @ '':'' @ m @ '':'' @ sec @ '','' @ d"

text \<open>The millisecond count of the fields: \<open>ms + 1000*s + 60000*m + 3600000*h\<close>.\<close>

definition timestamp_value :: "string \<Rightarrow> string \<Rightarrow> string \<Rightarrow> string \<Rightarrow> Timestamp" where
  "timestamp_value h m sec d =
     \<lparr>millis = decimal_value d + 1000 * decimal_value sec + 60000 * decimal_value m
                + 3600000 * decimal_value h\<rparr>"

text \<open>
  A match that ends the subject: \<open>p\<close> is all of \<open>s\<close>, or all of it but a last
  newline (where \<^verbatim>\<open>$\<close> also matches).
\<close>

definition at_end :: "string \<Rightarrow> string \<Rightarrow> bool" where
  "at_end p s = (s = p \<or> s = p @ [CHR 0x0A])"

subsection \<open>The delay transform\<close>

text \<open>
  A record survives an offset when its end plus the offset is not negative.  The
  surviving record at position \<open>pos\<close> of the output has that number, its start moved
  by the offset and clamped at 0, its end moved by the offset, and its text.
\<close>

definition survives :: "int \<Rightarrow> Subtitle \<Rightarrow> bool" where
  "survives d sub = (0 \<le> millis (end' sub) + d)"

definition shifted :: "int \<Rightarrow> nat \<Rightarrow> Subtitle \<Rightarrow> Subtitle" where
  "shifted d pos sub =
     \<lparr>number = int pos,
      start = \<lparr>millis = max (millis (start sub) + d) 0\<rparr>,
      end' = \<lparr>millis = millis (end' sub) + d\<rparr>,
      text' = text' sub\<rparr>"

definition delayed_records :: "int \<Rightarrow> Subtitle list \<Rightarrow> Subtitle list" where
  "delayed_records d subs =
     map (\<lambda>(pos, sub). shifted d pos sub) (enumerate 1 (filter (survives d) subs))"

text \<open>
  An integer is convertible when its decimal text has no more digits than the
  interpreter's limit.  The notice for a dropped record names its number in decimal.
\<close>

definition convertible :: "int \<Rightarrow> bool" where
  "convertible n = (\<bar>n\<bar> < 10 ^ int_max_str_digits)"

definition decimal_text :: "int \<Rightarrow> string" where
  "decimal_text n = (if n < 0 then CHR ''-'' # str_nat (nat (- n)) else str_nat (nat n))"

definition notice_text :: "Subtitle \<Rightarrow> string" where
  "notice_text sub =
     ''End of subtitle '' @ decimal_text (number sub)
       @ '' was advanced before 00:00:00,000 so the whole subtitle was removed.''"

definition removal_notices :: "int \<Rightarrow> Subtitle list \<Rightarrow> string list" where
  "removal_notices d subs = map notice_text (filter (\<lambda>sub. \<not> survives d sub) subs)"

text \<open>The dropped records of a list all have convertible numbers.\<close>

definition dropped_convertible :: "int \<Rightarrow> Subtitle list \<Rightarrow> bool" where
  "dropped_convertible d subs =
     list_all (\<lambda>sub. convertible (number sub)) (filter (\<lambda>sub. \<not> survives d sub) subs)"

subsection \<open>Canonical field texts\<close>

text \<open>A number below 100 in two digits, and a number below 1000 in three.\<close>

definition two_digits :: "nat \<Rightarrow> string" where
  "two_digits k = [digit_chr (k div 10), digit_chr (k mod 10)]"

definition three_digits :: "nat \<Rightarrow> string" where
  "three_digits k = [digit_chr (k div 100), digit_chr (k div 10 mod 10), digit_chr (k mod 10)]"

subsection \<open>Reading a timestamp text\<close>

text \<open>
  The fields of a text: what stands before the first colon, between it and the next
  colon, between that and the next comma, and after it.  A timestamp text is one whose
  fields are as the specification asks and that is made of them and the separators
  only; its timestamp is the millisecond count of its fields.
\<close>

definition fields_of :: "string \<Rightarrow> string \<times> string \<times> string \<times> string" where
  "fields_of s =
     (let h = takeWhile (\<lambda>c. c \<noteq> CHR '':'') s;
          r1 = drop (Suc (length h)) s;
          m = takeWhile (\<lambda>c. c \<noteq> CHR '':'') r1;
          r2 = drop (Suc (length m)) r1;
          sec = takeWhile (\<lambda>c. c \<noteq> CHR '','') r2;
          d = drop (Suc (length sec)) r2
      in (h, m, sec, d))"

definition is_timestamp_text :: "string \<Rightarrow> bool" where
  "is_timestamp_text s =
     (case fields_of s of (h, m, sec, d) \<Rightarrow>
        timestamp_fields h m sec d \<and> s = timestamp_text h m sec d)"

definition timestamp_of :: "string \<Rightarrow> Timestamp" where
  "timestamp_of s = (case fields_of s of (h, m, sec, d) \<Rightarrow> timestamp_value h m sec d)"

subsection \<open>Well-formed documents\<close>

text \<open>
  A block is given by its lines as they stand in the file: the number line, the
  timestamp line (what stands before the arrow and what stands after it), and the text
  lines.  It is well formed when the number line, trimmed, is one or more decimal
  digits; both sides of the arrow, trimmed, are timestamp texts; and there is at least
  one text line, none of them blank.  Its record carries the number, the two
  timestamps and the trimmed text lines.
\<close>

record block =
  number_line :: string
  start_part :: string
  end_part :: string
  text_lines :: "string list"

definition block_lines :: "block \<Rightarrow> string list" where
  "block_lines b = [number_line b, start_part b @ ''-->'' @ end_part b] @ text_lines b"

definition well_formed :: "block \<Rightarrow> bool" where
  "well_formed b =
     (strip (number_line b) \<noteq> [] \<and> list_all isdecimal (strip (number_line b))
      \<and> is_timestamp_text (strip (start_part b)) \<and> is_timestamp_text (strip (end_part b))
      \<and> text_lines b \<noteq> [] \<and> list_all (\<lambda>l. strip l \<noteq> []) (text_lines b))"

definition record_of :: "block \<Rightarrow> Subtitle" where
  "record_of b =
     \<lparr>number = decimal_value (strip (number_line b)),
      start = timestamp_of (strip (start_part b)),
      end' = timestamp_of (strip (end_part b)),
      text' = map strip (text_lines b)\<rparr>"

text \<open>
  A block is readable when it is well formed and its number has no more digits than
  the interpreter converts.
\<close>

definition readable :: "block \<Rightarrow> bool" where
  "readable b = (well_formed b \<and> length (strip (number_line b)) \<le> int_max_str_digits)"

text \<open>
  A blank line is one that trimming empties.  The lines of blocks that are each
  followed by one blank line (\<open>separated\<close>); a document of blocks with one blank line
  between two of them is such a list followed by the lines of its last block.
\<close>

definition is_blank :: "string \<Rightarrow> bool" where
  "is_blank l = (strip l = [])"

definition separated :: "(block \<times> string) list \<Rightarrow> string list" where
  "separated bs = concat (map (\<lambda>(b, blank). block_lines b @ [blank]) bs)"

definition records_of :: "(block \<times> string) list \<Rightarrow> Subtitle list" where
  "records_of bs = map (\<lambda>(b, blank). record_of b) bs"

text \<open>The parser between two blocks, with the records \<open>subs\<close> read so far.\<close>

definition between_blocks :: "Subtitle list \<Rightarrow> parser" where
  "between_blocks subs =
     \<lparr>state = NEW_SUBTITLE, subtitles = subs, cur_number = None, cur_start = None,
      cur_end = None, cur_text = []\<rparr>"

text \<open>The parser inside the block \<open>b\<close>, after its last text line.\<close>

definition in_block :: "Subtitle list \<Rightarrow> block \<Rightarrow> parser" where
  "in_block subs b =
     \<lparr>state = TEXT, subtitles = subs,
      cur_number = Some (number (record_of b)), cur_start = Some (start (record_of b)),
      cur_end = Some (end' (record_of b)), cur_text = text' (record_of b)\<rparr>"

subsection \<open>Invariants of the parser\<close>

text \<open>
  While the parser runs, the numbers it holds are not negative, and outside the text
  of a block no text line is pending.
\<close>

definition parser_inv :: "parser \<Rightarrow> bool" where
  "parser_inv p =
     (list_all (\<lambda>s. 0 \<le> number s) (subtitles p)
      \<and> (case cur_number p of None \<Rightarrow> True | Some n \<Rightarrow> 0 \<le> n)
      \<and> (if state p = TEXT then True else cur_text p = []))"

text \<open>The numbers the parser holds are convertible.\<close>

definition parser_conv :: "parser \<Rightarrow> bool" where
  "parser_conv p =
     (list_all (\<lambda>s. convertible (number s)) (subtitles p)
      \<and> (case cur_number p of None \<Rightarrow> True | Some n \<Rightarrow> convertible n))"

section \<open>The timestamp pattern\<close>

text \<open>
  What each matcher returns, as a set: the order of the alternatives matters only for
  which full match comes first, and a timestamp text has one way to be cut into fields,
  so it has one full match.
\<close>

lemma code_inj: "code x = code y \<longleftrightarrow> x = y"
  by (simp add: code_def)

lemma code_digit_chr: "k < 10 \<Longrightarrow> code (digit_chr k) = 48 + k"
  by (simp add: code_def digit_chr_def)

lemma in_re_empty: "(p, g) \<in> set (re_empty b s) \<longleftrightarrow> p = [] \<and> g = []"
  by (auto simp add: re_empty_def)

lemma in_re_bol: "(p, g) \<in> set (re_bol b s) \<longleftrightarrow> b \<and> p = [] \<and> g = []"
  by (auto simp add: re_bol_def)

lemma in_re_eol: "(p, g) \<in> set (re_eol b s) \<longleftrightarrow> (s = [] \<or> s = [CHR 0x0A]) \<and> p = [] \<and> g = []"
  by (auto simp add: re_eol_def)

lemma in_re_chr: "(p, g) \<in> set (re_chr c b s) \<longleftrightarrow> p = [c] \<and> g = [] \<and> (\<exists>t. s = c # t)"
  by (auto simp add: re_chr_def split: list.splits)

lemma in_re_set:
  "(p, g) \<in> set (re_set cs b s) \<longleftrightarrow> (\<exists>x t. s = x # t \<and> x \<in> set cs \<and> p = [x]) \<and> g = []"
  by (auto simp add: re_set_def split: list.splits)

lemma in_re_range:
  "(p, g) \<in> set (re_range lo hi b s) \<longleftrightarrow>
     (\<exists>x t. s = x # t \<and> code lo \<le> code x \<and> code x \<le> code hi \<and> p = [x]) \<and> g = []"
  by (auto simp add: re_range_def split: list.splits)

lemma in_re_seq:
  "(p, g) \<in> set (re_seq m1 m2 b s) \<longleftrightarrow>
     (\<exists>p1 g1 p2 g2. (p1, g1) \<in> set (m1 b s)
        \<and> (p2, g2) \<in> set (m2 (b \<and> p1 = []) (drop (length p1) s))
        \<and> p = p1 @ p2 \<and> g = g1 @ g2)"
  by (fastforce simp add: re_seq_def)

lemma in_re_alt:
  "(p, g) \<in> set (re_alt m1 m2 b s) \<longleftrightarrow> (p, g) \<in> set (m1 b s) \<or> (p, g) \<in> set (m2 b s)"
  by (simp add: re_alt_def)

lemma in_re_opt:
  "(p, g) \<in> set (re_opt m b s) \<longleftrightarrow> (p, g) \<in> set (m b s) \<or> (p = [] \<and> g = [])"
  by (simp add: re_opt_def in_re_alt in_re_empty)

lemma in_re_group:
  "(p, g) \<in> set (re_group m b s) \<longleftrightarrow> (\<exists>g'. (p, g') \<in> set (m b s) \<and> g = p # g')"
  by (auto simp add: re_group_def)


lemma length_1_conv: "length xs = Suc 0 \<longleftrightarrow> (\<exists>a. xs = [a])"
  by (auto simp: length_Suc_conv)

lemma length_2_conv: "length xs = 2 \<longleftrightarrow> (\<exists>a b. xs = [a, b])"
  by (auto simp: numeral_2_eq_2 length_Suc_conv)

lemma length_3_conv: "length xs = 3 \<longleftrightarrow> (\<exists>a b c. xs = [a, b, c])"
  by (auto simp: numeral_3_eq_3 length_Suc_conv)

lemma hours_text_cases:
  "hours_text p \<longleftrightarrow>
     (\<exists>a. p = [a] \<and> isdecimal a)
     \<or> (\<exists>a b. p = [a, b] \<and> isdecimal a \<and> isdecimal b \<and> 10 * digit_value a + digit_value b \<le> 23)"
  by (auto simp add: hours_text_def length_1_conv length_2_conv decimal_value_def isdecimal_def digit_value_def)

lemma sixty_text_cases:
  "sixty_text p \<longleftrightarrow>
     (\<exists>a. p = [a] \<and> isdecimal a)
     \<or> (\<exists>a b. p = [a, b] \<and> isdecimal a \<and> isdecimal b \<and> 10 * digit_value a + digit_value b \<le> 59)"
  by (auto simp add: sixty_text_def length_1_conv length_2_conv decimal_value_def isdecimal_def digit_value_def)

lemma millis_text_cases:
  "millis_text p \<longleftrightarrow>
     (\<exists>a. p = [a] \<and> isdecimal a)
     \<or> (\<exists>a b. p = [a, b] \<and> isdecimal a \<and> isdecimal b)
     \<or> (\<exists>a b c. p = [a, b, c] \<and> isdecimal a \<and> isdecimal b \<and> isdecimal c)"
proof -
  have "1 \<le> length p \<and> length p \<le> 3 \<longleftrightarrow> length p = Suc 0 \<or> length p = 2 \<or> length p = 3"
    by arith
  then show ?thesis
    unfolding millis_text_def by (auto simp add: length_1_conv length_2_conv length_3_conv)
qed

lemma list_shape2: "s = [] \<or> (\<exists>a. s = [a]) \<or> (\<exists>a b t. s = a # b # t)"
  by (cases s; simp; (cases "tl s"; simp))

lemmas re_defs = re_hours_def re_sixty_def re_millis_def re_digit_def re_alt_def re_seq_def re_opt_def re_set_def re_range_def re_chr_def re_empty_def

lemma code_chars:
  "x = CHR ''0'' \<longleftrightarrow> code x = 48" 
  "x = CHR ''1'' \<longleftrightarrow> code x = 49" 
  "x = CHR ''2'' \<longleftrightarrow> code x = 50" 
  by (simp_all add: code_inj[symmetric], simp_all add: code_def)

lemma code_consts: "code (CHR ''0'') = 48" "code (CHR ''9'') = 57" "code (CHR ''3'') = 51" "code (CHR ''5'') = 53"
  by (simp_all add: code_def)

lemma in_hours_re:
  "(p, g) \<in> set (re_hours b s)
   \<longleftrightarrow> hours_text p \<and> g = [] \<and> (\<exists>t. s = p @ t)"
  using list_shape2 [of s]
  by (elim disjE exE;
      simp add: re_defs hours_text_cases code_chars code_consts isdecimal_def digit_value_def)
     (auto simp: Cons_eq_append_conv)


lemma in_sixty_re:
  "(p, g) \<in> set (re_sixty b s)
   \<longleftrightarrow> sixty_text p \<and> g = [] \<and> (\<exists>t. s = p @ t)"
  using list_shape2 [of s]
  by (elim disjE exE;
      simp add: re_defs sixty_text_cases code_chars code_consts isdecimal_def digit_value_def)
     (auto simp: Cons_eq_append_conv)

lemma list_shape3:
  "s = [] \<or> (\<exists>a. s = [a]) \<or> (\<exists>a b. s = [a, b]) \<or> (\<exists>a b c t. s = a # b # c # t)"
  by (cases s; simp; (cases "tl s"; simp; (cases "tl (tl s)"; simp)))

lemma in_millis_re:
  "(p, g) \<in> set (re_millis b s)
   \<longleftrightarrow> millis_text p \<and> g = [] \<and> (\<exists>t. s = p @ t)"
  using list_shape3 [of s]
  by (elim disjE exE;
      simp add: re_repeat_def eval_nat_numeral re_defs millis_text_cases code_consts isdecimal_def)
     (auto simp: Cons_eq_append_conv)


lemma re_concat_Cons: "re_concat (m # ms) = re_seq m (re_concat ms)"
  by (simp add: re_concat_def)

lemma re_concat_Nil: "re_concat [] = re_empty"
  by (simp add: re_concat_def)

lemma in_tail_eol:
  "(p, g) \<in> set (re_concat [re_eol] b s) \<longleftrightarrow> p = [] \<and> g = [] \<and> at_end [] s"
  by (auto simp add: re_concat_Cons re_concat_Nil in_re_seq in_re_eol in_re_empty at_end_def)

lemma in_tail_millis:
  "(p, g) \<in> set (re_concat [re_group re_millis, re_eol] b s) \<longleftrightarrow>
     millis_text p \<and> g = [p] \<and> at_end p s"
  by (subst re_concat_Cons) (auto simp add: in_re_seq in_re_group in_millis_re in_tail_eol at_end_def)

lemma in_tail_comma:
  "(p, g) \<in> set (re_concat [re_chr (CHR '',''), re_group re_millis, re_eol] b s) \<longleftrightarrow>
     (\<exists>d. millis_text d \<and> p = '','' @ d \<and> g = [d] \<and> at_end p s)"
  by (subst re_concat_Cons) (auto simp add: in_re_seq in_re_chr in_tail_millis at_end_def)

lemma in_tail_sec:
  "(p, g) \<in> set (re_concat [re_group re_sixty, re_chr (CHR '',''), re_group re_millis, re_eol] b s) \<longleftrightarrow>
     (\<exists>sec d. sixty_text sec \<and> millis_text d \<and> p = sec @ '','' @ d \<and> g = [sec, d] \<and> at_end p s)"
  by (subst re_concat_Cons) (auto simp add: in_re_seq in_re_group in_sixty_re in_tail_comma at_end_def)


lemma in_tail_colon2:
  "(p, g) \<in> set (re_concat [re_chr (CHR '':''), re_group re_sixty, re_chr (CHR '',''),
                               re_group re_millis, re_eol] b s) \<longleftrightarrow>
     (\<exists>sec d. sixty_text sec \<and> millis_text d \<and> p = '':'' @ sec @ '','' @ d
        \<and> g = [sec, d] \<and> at_end p s)"
  by (subst re_concat_Cons) (auto simp add: in_re_seq in_re_chr in_tail_sec at_end_def)

lemma in_tail_min:
  "(p, g) \<in> set (re_concat [re_group re_sixty, re_chr (CHR '':''), re_group re_sixty,
                               re_chr (CHR '',''), re_group re_millis, re_eol] b s) \<longleftrightarrow>
     (\<exists>m sec d. sixty_text m \<and> sixty_text sec \<and> millis_text d
        \<and> p = m @ '':'' @ sec @ '','' @ d \<and> g = [m, sec, d] \<and> at_end p s)"
  by (subst re_concat_Cons) (auto simp add: in_re_seq in_re_group in_sixty_re in_tail_colon2 at_end_def)

lemma in_tail_colon1:
  "(p, g) \<in> set (re_concat [re_chr (CHR '':''), re_group re_sixty, re_chr (CHR '':''),
                               re_group re_sixty, re_chr (CHR '',''), re_group re_millis,
                               re_eol] b s) \<longleftrightarrow>
     (\<exists>m sec d. sixty_text m \<and> sixty_text sec \<and> millis_text d
        \<and> p = '':'' @ m @ '':'' @ sec @ '','' @ d \<and> g = [m, sec, d] \<and> at_end p s)"
  by (subst re_concat_Cons) (auto simp add: in_re_seq in_re_chr in_tail_min at_end_def)

lemma in_tail_hours:
  "(p, g) \<in> set (re_concat [re_group re_hours, re_chr (CHR '':''), re_group re_sixty,
                               re_chr (CHR '':''), re_group re_sixty, re_chr (CHR '',''),
                               re_group re_millis, re_eol] b s) \<longleftrightarrow>
     (\<exists>h m sec d. hours_text h \<and> sixty_text m \<and> sixty_text sec \<and> millis_text d
        \<and> p = timestamp_text h m sec d \<and> g = [h, m, sec, d] \<and> at_end p s)"
  by (subst re_concat_Cons) (auto simp add: in_re_seq in_re_group in_hours_re in_tail_colon1 timestamp_text_def at_end_def)

lemma in_timestamp_re:
  "(p, g) \<in> set (timestamp_re b s) \<longleftrightarrow>
     (\<exists>h m sec d. b \<and> hours_text h \<and> sixty_text m \<and> sixty_text sec \<and> millis_text d
        \<and> p = timestamp_text h m sec d \<and> g = [h, m, sec, d] \<and> at_end p s)"
  unfolding timestamp_re_def by (subst re_concat_Cons) (auto simp add: in_re_seq in_re_bol in_tail_hours at_end_def)


lemma decimal_not_sep:
  "list_all isdecimal xs \<Longrightarrow> CHR '':'' \<notin> set xs \<and> CHR '','' \<notin> set xs"
  by (auto simp: list_all_iff isdecimal_def code_def)

lemma field_texts_decimal:
  "hours_text h \<Longrightarrow> h \<noteq> [] \<and> list_all isdecimal h"
  "sixty_text m \<Longrightarrow> m \<noteq> [] \<and> list_all isdecimal m"
  "millis_text d \<Longrightarrow> d \<noteq> [] \<and> list_all isdecimal d"
  by (auto simp: hours_text_def sixty_text_def millis_text_def)

lemma field_texts_short:
  "hours_text h \<Longrightarrow> length h \<le> int_max_str_digits"
  "sixty_text m \<Longrightarrow> length m \<le> int_max_str_digits"
  "millis_text d \<Longrightarrow> length d \<le> int_max_str_digits"
  by (auto simp: hours_text_def sixty_text_def millis_text_def int_max_str_digits_def)

lemma split_at_first:
  "x \<notin> set xs \<Longrightarrow> x \<notin> set xs' \<Longrightarrow>
   xs @ x # ys = xs' @ x # ys' \<longleftrightarrow> xs = xs' \<and> ys = ys'"
proof (induction xs arbitrary: xs')
  case Nil
  then show ?case by (cases xs') auto
next
  case (Cons a xs)
  then show ?case by (cases xs') auto
qed

lemma timestamp_text_inject:
  assumes "timestamp_fields h m sec d" and "timestamp_fields h' m' sec' d'"
    and "timestamp_text h m sec d = timestamp_text h' m' sec' d'"
  shows "h = h' \<and> m = m' \<and> sec = sec' \<and> d = d'"
proof -
  note dec = assms(1,2)[unfolded timestamp_fields_def]
  have h: "CHR '':'' \<notin> set h" "CHR '':'' \<notin> set h'"
    using dec field_texts_decimal(1) decimal_not_sep by blast+
  have m: "CHR '':'' \<notin> set m" "CHR '':'' \<notin> set m'"
    using dec field_texts_decimal(2) decimal_not_sep by blast+
  have s: "CHR '','' \<notin> set sec" "CHR '','' \<notin> set sec'"
    using dec field_texts_decimal(2) decimal_not_sep by blast+
  from assms(3) have "h @ CHR '':'' # (m @ '':'' @ sec @ '','' @ d)
      = h' @ CHR '':'' # (m' @ '':'' @ sec' @ '','' @ d')"
    by (simp add: timestamp_text_def)
  then have 1: "h = h' \<and> m @ CHR '':'' # (sec @ '','' @ d) = m' @ CHR '':'' # (sec' @ '','' @ d')"
    using split_at_first [OF h] by simp
  then have 2: "m = m' \<and> sec @ CHR '','' # d = sec' @ CHR '','' # d'"
    using split_at_first [OF m] by simp
  then have "sec = sec' \<and> d = d'"
    using split_at_first [OF s] by simp
  with 1 2 show ?thesis by simp
qed

lemma fullmatch_timestamp_re_Some:
  assumes "fullmatch timestamp_re s = Some ms"
  shows "\<exists>h m sec d. timestamp_fields h m sec d \<and> s = timestamp_text h m sec d
           \<and> ms = [s, h, m, sec, d]"
proof -
  from assms obtain p g rest
    where f: "filter (\<lambda>(p, g). p = s) (timestamp_re True s) = (p, g) # rest" and ms: "ms = p # g"
    by (auto simp: fullmatch_def split: list.splits)
  have "(p, g) \<in> set (filter (\<lambda>(p, g). p = s) (timestamp_re True s))"
    by (simp add: f)
  then have "(p, g) \<in> set (timestamp_re True s)" and "p = s"
    by auto
  then show ?thesis
    using ms by (auto simp: in_timestamp_re timestamp_fields_def)
qed

lemma fullmatch_timestamp_re_ok:
  assumes "timestamp_fields h m sec d"
  shows "fullmatch timestamp_re (timestamp_text h m sec d)
           = Some [timestamp_text h m sec d, h, m, sec, d]"
proof -
  let ?s = "timestamp_text h m sec d"
  have "(?s, [h, m, sec, d]) \<in> set (timestamp_re True ?s)"
    using assms by (auto simp: in_timestamp_re timestamp_fields_def at_end_def)
  then have "filter (\<lambda>(p, g). p = ?s) (timestamp_re True ?s) \<noteq> []"
    by (auto simp: filter_empty_conv)
  then obtain ms where some: "fullmatch timestamp_re ?s = Some ms"
    by (cases "filter (\<lambda>(p, g). p = ?s) (timestamp_re True ?s)") (auto simp: fullmatch_def)
  from fullmatch_timestamp_re_Some [OF some] obtain h' m' sec' d'
    where "timestamp_fields h' m' sec' d'" "?s = timestamp_text h' m' sec' d'"
      "ms = [?s, h', m', sec', d']"
    by blast
  with timestamp_text_inject [OF assms this(1,2)] some show ?thesis
    by simp
qed

lemma fullmatch_timestamp_re_None:
  assumes "\<not> (\<exists>h m sec d. timestamp_fields h m sec d \<and> s = timestamp_text h m sec d)"
  shows "fullmatch timestamp_re s = None"
proof (cases "fullmatch timestamp_re s")
  case None
  then show ?thesis .
next
  case (Some ms)
  from fullmatch_timestamp_re_Some [OF this] assms show ?thesis
    by blast
qed

lemma py_int_decimal:
  assumes "s \<noteq> []" "list_all isdecimal s" "length s \<le> int_max_str_digits"
  shows "py_int s = Inr (decimal_value s)"
proof -
  have digits: "takeWhile isdecimal s = s"
    using assms(2) by (simp add: takeWhile_eq_all_conv list_all_iff)
  show ?thesis
    using assms(1,3) by (simp add: py_int_def digits Let_def)
qed

lemma from_str_ok:
  assumes "timestamp_fields h m sec d"
  shows "from_str (timestamp_text h m sec d) = Inr (timestamp_value h m sec d)"
proof -
  note f = assms [unfolded timestamp_fields_def]
  have "py_int h = Inr (decimal_value h)" "py_int m = Inr (decimal_value m)"
    "py_int sec = Inr (decimal_value sec)" "py_int d = Inr (decimal_value d)"
    using f field_texts_decimal field_texts_short by (simp_all add: py_int_decimal)
  then show ?thesis
    by (simp add: from_str_def fullmatch_timestamp_re_ok [OF assms] match_group_def bind_def
        timestamp_value_def)
qed

lemma from_str_not_ok:
  assumes "\<not> (\<exists>h m sec d. timestamp_fields h m sec d \<and> s = timestamp_text h m sec d)"
  shows "from_str s = Inl (ValueError [s @ '' is not a valid timestamp''])"
  by (simp add: from_str_def fullmatch_timestamp_re_None [OF assms])

lemma from_str_Inr_D:
  assumes "from_str s = Inr t"
  shows "\<exists>h m sec d. timestamp_fields h m sec d \<and> s = timestamp_text h m sec d
           \<and> t = timestamp_value h m sec d"
proof (cases "\<exists>h m sec d. timestamp_fields h m sec d \<and> s = timestamp_text h m sec d")
  case True
  then obtain h m sec d where *: "timestamp_fields h m sec d" "s = timestamp_text h m sec d"
    by blast
  with from_str_ok [OF *(1)] assms show ?thesis by auto
next
  case False
  from from_str_not_ok [OF this] assms show ?thesis by simp
qed

section \<open>Trimming and splitting\<close>

text \<open>
  Trimming on the left and on the right commute, a trimmed text keeps every character
  that is not whitespace, and a line with one arrow between two texts free of dashes
  splits into these two texts.
\<close>

lemma rstrip_Nil: "rstrip [] = []"
  by (simp add: rstrip_def)

lemma rstrip_Cons:
  "rstrip (c # cs) = (if rstrip cs = [] \<and> isspace c then [] else c # rstrip cs)"
  by (auto simp add: rstrip_def dropWhile_append dropWhile_eq_Nil_conv)

lemma rstrip_lstrip: "rstrip (lstrip s) = lstrip (rstrip s)"
  unfolding lstrip_def
  by (induction s) (auto simp add: rstrip_Nil rstrip_Cons)

lemma rstrip_idem: "rstrip (rstrip s) = rstrip s"
  by (simp add: rstrip_def)

lemma lstrip_idem: "lstrip (lstrip s) = lstrip s"
  by (simp add: lstrip_def)

lemma strip_lstrip: "strip (lstrip s) = strip s"
  by (simp add: strip_def rstrip_lstrip lstrip_idem)

lemma strip_rstrip: "strip (rstrip s) = strip s"
  by (simp add: strip_def rstrip_idem)

lemma set_lstrip: "set (lstrip s) \<subseteq> set s"
  by (simp add: lstrip_def set_dropWhileD subsetI)

lemma set_rstrip: "set (rstrip s) \<subseteq> set s"
  using set_dropWhileD [of _ isspace "rev s"] by (auto simp add: rstrip_def)

lemma set_strip: "set (strip s) \<subseteq> set s"
  using set_lstrip [of "rstrip s"] set_rstrip [of s] by (auto simp: strip_def)

lemma not_space_in_strip: "c \<in> set s \<Longrightarrow> \<not> isspace c \<Longrightarrow> c \<in> set (strip s)"
proof -
  assume c: "c \<in> set s" "\<not> isspace c"
  have l: "\<And>xs. c \<in> set xs \<Longrightarrow> c \<in> set (dropWhile isspace xs)"
  proof -
    fix xs assume "c \<in> set xs"
    then show "c \<in> set (dropWhile isspace xs)"
      using c(2) by (induction xs) auto
  qed
  from l [of "rev s"] c(1) have "c \<in> set (rstrip s)"
    by (simp add: rstrip_def)
  from l [OF this] show ?thesis
    by (simp add: strip_def lstrip_def)
qed

lemma strip_nonempty_has_text: "strip s \<noteq> [] \<Longrightarrow> \<exists>c\<in>set s. \<not> isspace c"
proof -
  assume "strip s \<noteq> []"
  then have "\<not> isspace (hd (strip s))" "hd (strip s) \<in> set (strip s)"
    by (simp_all add: strip_def lstrip_def hd_dropWhile)
  with set_strip [of s] show ?thesis by blast
qed

lemma lstrip_append: "\<exists>c\<in>set a. \<not> isspace c \<Longrightarrow> lstrip (a @ r) = lstrip a @ r"
  by (auto simp add: lstrip_def dropWhile_append)

lemma rstrip_append: "\<exists>c\<in>set b. \<not> isspace c \<Longrightarrow> rstrip (l @ b) = l @ rstrip b"
  by (auto simp add: rstrip_def dropWhile_append)

lemma strip_around:
  assumes "strip a \<noteq> []" "strip b \<noteq> []"
  shows "strip (a @ m @ b) = lstrip a @ m @ rstrip b"
proof -
  have "rstrip (a @ m @ b) = (a @ m) @ rstrip b"
    using rstrip_append [OF strip_nonempty_has_text [OF assms(2)], of "a @ m"] by simp
  then show ?thesis
    using lstrip_append [OF strip_nonempty_has_text [OF assms(1)]] by (simp add: strip_def)
qed

lemma takeWhile_before: "c \<notin> set xs \<Longrightarrow> takeWhile (\<lambda>x. x \<noteq> c) (xs @ c # ys) = xs"
  by (induction xs) auto

lemma fields_of_text:
  assumes "timestamp_fields h m sec d"
  shows "fields_of (timestamp_text h m sec d) = (h, m, sec, d)"
proof -
  note dec = assms [unfolded timestamp_fields_def]
  have h: "CHR '':'' \<notin> set h"
    using dec field_texts_decimal(1) decimal_not_sep by blast
  have m: "CHR '':'' \<notin> set m"
    using dec field_texts_decimal(2) decimal_not_sep by blast
  have s: "CHR '','' \<notin> set sec"
    using dec field_texts_decimal(2) decimal_not_sep by blast
  have 1: "takeWhile (\<lambda>c. c \<noteq> CHR '':'') (h @ CHR '':'' # (m @ CHR '':'' # (sec @ CHR '','' # d))) = h"
    by (rule takeWhile_before [OF h])
  have 2: "takeWhile (\<lambda>c. c \<noteq> CHR '':'') (m @ CHR '':'' # (sec @ CHR '','' # d)) = m"
    by (rule takeWhile_before [OF m])
  have 3: "takeWhile (\<lambda>c. c \<noteq> CHR '','') (sec @ CHR '','' # d) = sec"
    by (rule takeWhile_before [OF s])
  show ?thesis
    by (simp add: fields_of_def timestamp_text_def 1 2 3 Let_def)
qed

lemma is_timestamp_text_iff:
  "is_timestamp_text s \<longleftrightarrow>
     (\<exists>h m sec d. timestamp_fields h m sec d \<and> s = timestamp_text h m sec d)"
  by (auto simp add: is_timestamp_text_def fields_of_text split: prod.splits)

lemma from_str_timestamp_text:
  "is_timestamp_text s \<Longrightarrow> from_str s = Inr (timestamp_of s)"
  by (auto simp add: is_timestamp_text_iff timestamp_of_def fields_of_text from_str_ok)

lemma from_str_other_text:
  "\<not> is_timestamp_text s \<Longrightarrow> from_str s = Inl (ValueError [s @ '' is not a valid timestamp''])"
  by (simp add: is_timestamp_text_iff from_str_not_ok)

lemma timestamp_text_chars:
  assumes "is_timestamp_text s"
  shows "s \<noteq> [] \<and> CHR ''-'' \<notin> set s \<and> (\<forall>c\<in>set s. \<not> isspace c)"
proof -
  from assms obtain h m sec d where f: "timestamp_fields h m sec d" and s: "s = timestamp_text h m sec d"
    by (auto simp: is_timestamp_text_iff)
  have dec: "list_all isdecimal h" "list_all isdecimal m" "list_all isdecimal sec"
    "list_all isdecimal d" "h \<noteq> []"
    using f by (auto simp add: timestamp_fields_def hours_text_def sixty_text_def millis_text_def)
  have ok: "\<And>c. isdecimal c \<or> c = CHR '':'' \<or> c = CHR '','' \<Longrightarrow> c \<noteq> CHR ''-'' \<and> \<not> isspace c"
    by (auto simp: isdecimal_def isspace_def code_def)
  have "\<forall>c\<in>set s. isdecimal c \<or> c = CHR '':'' \<or> c = CHR '',''"
    using dec by (auto simp: s timestamp_text_def list_all_iff)
  with ok have "\<forall>c\<in>set s. c \<noteq> CHR ''-'' \<and> \<not> isspace c"
    by blast
  moreover have "s \<noteq> []"
    using dec(5) by (simp add: s timestamp_text_def)
  ultimately show ?thesis by blast
qed

lemma no_dash_around_timestamp:
  assumes "is_timestamp_text (strip a)"
  shows "CHR ''-'' \<notin> set a"
proof
  assume "CHR ''-'' \<in> set a"
  moreover have "\<not> isspace (CHR ''-'')"
    by (simp add: isspace_def code_def)
  ultimately have "CHR ''-'' \<in> set (strip a)"
    by (rule not_space_in_strip)
  with timestamp_text_chars [OF assms] show False by blast
qed

lemma split_from_skip:
  "CHR ''-'' \<notin> set x \<Longrightarrow> split_from ''-->'' cur (x @ rest) = split_from ''-->'' (cur @ x) rest"
proof (induction x arbitrary: cur)
  case Nil
  then show ?case by simp
next
  case (Cons c x)
  then have c: "c \<noteq> CHR ''-''" and x: "CHR ''-'' \<notin> set x"
    by auto
  have "split_from ''-->'' cur ((c # x) @ rest) = split_from ''-->'' (cur @ [c]) (x @ rest)"
    using c by (simp add: numeral_3_eq_3)
  also have "\<dots> = split_from ''-->'' ((cur @ [c]) @ x) rest"
    by (rule Cons.IH [OF x])
  finally show ?case by simp
qed

lemma py_split_arrow:
  assumes "CHR ''-'' \<notin> set x" "CHR ''-'' \<notin> set y"
  shows "py_split (x @ ''-->'' @ y) ''-->'' = [x, y]"
proof -
  have "split_from ''-->'' [] (x @ ''-->'' @ y) = split_from ''-->'' x (''-->'' @ y)"
    using split_from_skip [OF assms(1), of "[]"] by simp
  also have "\<dots> = x # split_from ''-->'' [] y"
    by simp
  also have "split_from ''-->'' [] y = [y]"
    using split_from_skip [OF assms(2), of "[]" "[]"] by simp
  finally show ?thesis by (simp add: py_split_def)
qed

section \<open>Decimal texts\<close>

text \<open>
  \<open>str\<close> and \<open>zfill\<close> on numbers below 100 and below 1000 give the two and three
  digits of the number, and reading the digits gives the number back.
\<close>

lemma isdecimal_digit_chr: "k < 10 \<Longrightarrow> isdecimal (digit_chr k)"
  by (simp add: isdecimal_def code_digit_chr)

lemma digit_value_digit_chr: "k < 10 \<Longrightarrow> digit_value (digit_chr k) = int k"
  by (simp add: digit_value_def code_digit_chr)

lemma digit_chr_0: "digit_chr 0 = CHR ''0''"
  by (simp add: digit_chr_def char_of_eq_iff)

lemma digit_chr_digit_value: "isdecimal c \<Longrightarrow> digit_chr (nat (digit_value c)) = c"
proof -
  assume "isdecimal c"
  then have "nat (digit_value c) = code c - 48" "48 \<le> code c"
    by (auto simp: isdecimal_def digit_value_def)
  then show ?thesis
    by (simp add: digit_chr_def code_def)
qed

lemma str_nat_1: "n < 10 \<Longrightarrow> str_nat n = [digit_chr n]"
  by (simp add: str_nat.simps)

lemma str_nat_2: "10 \<le> n \<Longrightarrow> n < 100 \<Longrightarrow> str_nat n = [digit_chr (n div 10), digit_chr (n mod 10)]"
  by (subst str_nat.simps) (simp add: str_nat_1)

lemma str_nat_3:
  "100 \<le> n \<Longrightarrow> n < 1000 \<Longrightarrow>
   str_nat n = [digit_chr (n div 100), digit_chr (n div 10 mod 10), digit_chr (n mod 10)]"
  by (subst str_nat.simps) (simp add: str_nat_2 div_mult2_eq[symmetric])

lemma code_signs: "code (CHR ''+'') = 43" "code (CHR ''-'') = 45"
  by (simp_all add: code_def)
lemma digit_chr_not_sign: "k < 10 \<Longrightarrow> digit_chr k \<noteq> CHR ''+'' \<and> digit_chr k \<noteq> CHR ''-''"
proof -
  assume "k < 10"
  then have "code (digit_chr k) = 48 + k" by (rule code_digit_chr)
  then have "code (digit_chr k) \<noteq> code (CHR ''+'')" "code (digit_chr k) \<noteq> code (CHR ''-'')"
    by (simp_all add: code_signs)
  then show ?thesis by auto
qed

lemma length_str_nat_pos: "0 < length (str_nat n)"
  by (subst str_nat.simps) simp

lemma length_str_nat_le: "length (str_nat n) \<le> Suc k \<longleftrightarrow> n < 10 ^ Suc k"
proof (induction k arbitrary: n)
  case 0
  show ?case
  proof (cases "n < 10")
    case True
    then show ?thesis by (simp add: str_nat_1)
  next
    case False
    have "length (str_nat n) = Suc (length (str_nat (n div 10)))"
      using False by (subst str_nat.simps) simp
    with length_str_nat_pos [of "n div 10"] False show ?thesis
      by simp
  qed
next
  case (Suc k)
  show ?case
  proof (cases "n < 10")
    case True
    have "(10::nat) ^ 1 \<le> 10 ^ Suc (Suc k)"
      by (rule power_increasing) simp_all
    then have "(10::nat) \<le> 10 ^ Suc (Suc k)"
      by (simp only: power_one_right)
    with True have "n < 10 ^ Suc (Suc k)"
      by (rule less_le_trans)
    moreover have "length (str_nat n) \<le> Suc (Suc k)"
      using True by (simp add: str_nat_1)
    ultimately show ?thesis by blast
  next
    case False
    have "length (str_nat n) = Suc (length (str_nat (n div 10)))"
      using False by (subst str_nat.simps) simp
    then have "length (str_nat n) \<le> Suc (Suc k) \<longleftrightarrow> n div 10 < 10 ^ Suc k"
      using Suc.IH [of "n div 10"] by simp
    also have "\<dots> \<longleftrightarrow> n < 10 ^ Suc (Suc k)"
      by (simp add: div_less_iff_less_mult mult.commute)
    finally show ?thesis .
  qed
qed

lemma length_str_nat_limit:
  "length (str_nat n) \<le> int_max_str_digits \<longleftrightarrow> n < 10 ^ int_max_str_digits"
proof -
  have "int_max_str_digits = Suc (int_max_str_digits - 1)"
    by (simp add: int_max_str_digits_def)
  then show ?thesis
    using length_str_nat_le [of n "int_max_str_digits - 1"] by simp
qed

lemma convertible_iff: "convertible i \<longleftrightarrow> length (str_nat (nat \<bar>i\<bar>)) \<le> int_max_str_digits"
proof -
  have "convertible i \<longleftrightarrow> int (nat \<bar>i\<bar>) < int (10 ^ int_max_str_digits)"
    by (simp add: convertible_def)
  also have "\<dots> \<longleftrightarrow> nat \<bar>i\<bar> < 10 ^ int_max_str_digits"
    by (rule of_nat_less_iff)
  finally show ?thesis
    by (simp only: length_str_nat_limit)
qed

lemma py_str_convertible: "convertible i \<Longrightarrow> py_str i = Inr (decimal_text i)"
  by (auto simp add: convertible_iff py_str_def decimal_text_def Let_def abs_if)

lemma py_str_not_convertible: "\<not> convertible i \<Longrightarrow> py_str i = Inl str_limit_error"
  by (simp add: convertible_iff py_str_def Let_def)

lemma py_str_small:
  assumes "0 \<le> i" "i < 1000"
  shows "py_str i = Inr (str_nat (nat i))"
proof -
  have "nat \<bar>i\<bar> < 10 ^ Suc 2"
    using assms by simp
  then have "length (str_nat (nat \<bar>i\<bar>)) \<le> Suc 2"
    by (simp only: length_str_nat_le)
  then show ?thesis
    using assms by (simp add: py_str_def int_max_str_digits_def Let_def)
qed

lemma zfill_2:
  assumes "n < 100"
  shows "zfill (str_nat n) 2 = two_digits n"
proof (cases "n < 10")
  case True
  then show ?thesis
    using digit_chr_not_sign [of n]
    by (simp add: two_digits_def str_nat_1 zfill_def digit_chr_0)
next
  case False
  then show ?thesis
    using assms by (simp add: two_digits_def str_nat_2 zfill_def)
qed

lemma zfill_3:
  assumes "n < 1000"
  shows "zfill (str_nat n) 3 = three_digits n"
proof -
  consider "n < 10" | "10 \<le> n" "n < 100" | "100 \<le> n"
    by linarith
  then show ?thesis
  proof cases
    case 1
    then show ?thesis
      using digit_chr_not_sign [of n]
      by (simp add: three_digits_def str_nat_1 zfill_def digit_chr_0 numeral_2_eq_2)
  next
    case 2
    then have "n div 10 < 10" by simp
    with 2 show ?thesis
      using digit_chr_not_sign [of "n div 10"]
      by (simp add: three_digits_def str_nat_2 zfill_def digit_chr_0)
  next
    case 3
    then show ?thesis
      using assms by (simp add: three_digits_def str_nat_3 zfill_def)
  qed
qed

lemma decimal_value_2:
  "a < 10 \<Longrightarrow> b < 10 \<Longrightarrow> decimal_value [digit_chr a, digit_chr b] = int (10 * a + b)"
  by (simp add: decimal_value_def digit_value_digit_chr)

lemma decimal_value_3:
  "a < 10 \<Longrightarrow> b < 10 \<Longrightarrow> c < 10 \<Longrightarrow>
   decimal_value [digit_chr a, digit_chr b, digit_chr c] = int (100 * a + 10 * b + c)"
  by (simp add: decimal_value_def digit_value_digit_chr)

lemma hours_text_2:
  "k < 24 \<Longrightarrow> hours_text (two_digits k)"
  by (simp add: two_digits_def hours_text_def isdecimal_digit_chr decimal_value_2)

lemma sixty_text_2:
  "k < 60 \<Longrightarrow> sixty_text (two_digits k)"
  by (simp add: two_digits_def sixty_text_def isdecimal_digit_chr decimal_value_2)

lemma millis_text_3:
  "k < 1000 \<Longrightarrow> millis_text (three_digits k)"
  by (simp add: three_digits_def millis_text_def isdecimal_digit_chr)

lemma decimal_value_3_eq:
  "k < 1000 \<Longrightarrow> decimal_value (three_digits k) = int k"
proof -
  assume "k < 1000"
  then have "k div 100 < 10" by simp
  then have "decimal_value [digit_chr (k div 100), digit_chr (k div 10 mod 10), digit_chr (k mod 10)]
               = int (100 * (k div 100) + 10 * (k div 10 mod 10) + k mod 10)"
    by (simp add: decimal_value_3)
  also have "100 * (k div 100) + 10 * (k div 10 mod 10) + k mod 10 = k"
  proof -
    have "k mod 100 = 10 * (k div 10 mod 10) + k mod 10"
      using mod_mult2_eq [of k 10 10] by simp
    with mult_div_mod_eq [of 100 k] show ?thesis by linarith
  qed
  finally show ?thesis by (simp add: three_digits_def)
qed

lemma decimal_value_2_eq:
  "k < 100 \<Longrightarrow> decimal_value (two_digits k) = int k"
  by (simp add: two_digits_def decimal_value_2)

section \<open>Formatting and parsing timestamps\<close>

text \<open>
  Below 24 hours the formatted text of a timestamp is made of canonical fields, whose
  millisecond count is the timestamp; and the millisecond count of any fields splits
  back into their values.
\<close>

lemma Timestamp_str_canonical:
  assumes "0 \<le> n" "n < 86400000"
  shows "Timestamp_str \<lparr>millis = n\<rparr> =
           Inr (timestamp_text (two_digits (nat (n div 3600000)))
                               (two_digits (nat (n mod 3600000 div 60000)))
                               (two_digits (nat (n mod 60000 div 1000)))
                               (three_digits (nat (n mod 1000))))"
proof -
  have h: "0 \<le> n div 3600000" "n div 3600000 < 1000" "nat (n div 3600000) < 100"
    using assms by auto
  have m: "0 \<le> n mod 3600000 div 60000" "n mod 3600000 div 60000 < 1000"
    "nat (n mod 3600000 div 60000) < 100"
    by auto
  have 1: "n mod 3600000 mod 60000 = n mod 60000"
    by (simp add: mod_mod_cancel)
  have s: "0 \<le> n mod 60000 div 1000" "n mod 60000 div 1000 < 1000"
    "nat (n mod 60000 div 1000) < 100"
    by auto
  have 2: "n mod 60000 mod 1000 = n mod 1000"
    by (simp add: mod_mod_cancel)
  have d: "0 \<le> n mod 1000" "n mod 1000 < 1000" "nat (n mod 1000) < 1000"
    by auto
  show ?thesis
    by (simp add: Timestamp_str_def divmod_def 1 2 bind_def
        py_str_small [OF h(1,2)] py_str_small [OF m(1,2)] py_str_small [OF s(1,2)]
        py_str_small [OF d(1,2)] zfill_2 [OF h(3)] zfill_2 [OF m(3)] zfill_2 [OF s(3)]
        zfill_3 [OF d(3)] timestamp_text_def)
qed

lemma canonical_fields:
  assumes "0 \<le> n" "n < 86400000"
  shows "timestamp_fields (two_digits (nat (n div 3600000)))
                          (two_digits (nat (n mod 3600000 div 60000)))
                          (two_digits (nat (n mod 60000 div 1000)))
                          (three_digits (nat (n mod 1000)))"
proof -
  have h: "nat (n div 3600000) < 24" using assms by auto
  have m: "nat (n mod 3600000 div 60000) < 60" by auto
  have s: "nat (n mod 60000 div 1000) < 60" by auto
  have d: "nat (n mod 1000) < 1000" by auto
  show ?thesis
    unfolding timestamp_fields_def
    using hours_text_2 [OF h] sixty_text_2 [OF m] sixty_text_2 [OF s] millis_text_3 [OF d]
    by blast
qed

lemma canonical_sum:
  fixes n :: int
  shows "n mod 1000 + 1000 * (n mod 60000 div 1000) + 60000 * (n mod 3600000 div 60000)
           + 3600000 * (n div 3600000) = n"
proof -
  have "n mod 60000 = 1000 * (n mod 60000 div 1000) + n mod 60000 mod 1000"
    by simp
  moreover have "n mod 60000 mod 1000 = n mod 1000"
    by (simp add: mod_mod_cancel)
  moreover have "n mod 3600000 = 60000 * (n mod 3600000 div 60000) + n mod 3600000 mod 60000"
    by simp
  moreover have "n mod 3600000 mod 60000 = n mod 60000"
    by (simp add: mod_mod_cancel)
  moreover have "n = 3600000 * (n div 3600000) + n mod 3600000"
    by simp
  ultimately show ?thesis by linarith
qed

lemma canonical_value:
  assumes "0 \<le> n" "n < 86400000"
  shows "timestamp_value (two_digits (nat (n div 3600000)))
                          (two_digits (nat (n mod 3600000 div 60000)))
                          (two_digits (nat (n mod 60000 div 1000)))
                          (three_digits (nat (n mod 1000))) = \<lparr>millis = n\<rparr>"
proof -
  have h: "nat (n div 3600000) < 100" using assms by auto
  have m: "nat (n mod 3600000 div 60000) < 100" by auto
  have s: "nat (n mod 60000 div 1000) < 100" by auto
  have d: "nat (n mod 1000) < 1000" by auto
  have h': "int (nat (n div 3600000)) = n div 3600000" using assms by simp
  have m': "int (nat (n mod 3600000 div 60000)) = n mod 3600000 div 60000" by simp
  have s': "int (nat (n mod 60000 div 1000)) = n mod 60000 div 1000" by simp
  have d': "int (nat (n mod 1000)) = n mod 1000" by simp
  show ?thesis
    unfolding timestamp_value_def decimal_value_2_eq [OF h] decimal_value_2_eq [OF m]
      decimal_value_2_eq [OF s] decimal_value_3_eq [OF d] h' m' s' d' canonical_sum ..
qed

lemma from_str_Timestamp_str:
  assumes "0 \<le> n" "n < 86400000"
  shows "\<exists>s. Timestamp_str \<lparr>millis = n\<rparr> = Inr s \<and> from_str s = Inr \<lparr>millis = n\<rparr>"
  by (simp add: Timestamp_str_canonical [OF assms] from_str_ok [OF canonical_fields [OF assms]]
      canonical_value [OF assms])

lemma hours_text_bounds: "hours_text h \<Longrightarrow> 0 \<le> decimal_value h \<and> decimal_value h \<le> 23"
  by (auto simp: hours_text_cases decimal_value_def isdecimal_def digit_value_def)

lemma sixty_text_bounds: "sixty_text m \<Longrightarrow> 0 \<le> decimal_value m \<and> decimal_value m \<le> 59"
  by (auto simp: sixty_text_cases decimal_value_def isdecimal_def digit_value_def)

lemma millis_text_bounds: "millis_text d \<Longrightarrow> 0 \<le> decimal_value d \<and> decimal_value d \<le> 999"
  by (auto simp: millis_text_cases decimal_value_def isdecimal_def digit_value_def)

lemma timestamp_value_bounds:
  assumes "timestamp_fields h m sec d"
  shows "0 \<le> millis (timestamp_value h m sec d) \<and> millis (timestamp_value h m sec d) \<le> 86399999"
  using assms hours_text_bounds [of h] sixty_text_bounds [of m] sixty_text_bounds [of sec]
    millis_text_bounds [of d]
  by (simp add: timestamp_fields_def timestamp_value_def)

lemma two_digits_decimal_value:
  assumes "length h = 2" "list_all isdecimal h"
  shows "two_digits (nat (decimal_value h)) = h"
proof -
  from assms obtain a b where h: "h = [a, b]" and ab: "isdecimal a" "isdecimal b"
    by (auto simp: length_2_conv)
  have va: "0 \<le> digit_value a" "digit_value a \<le> 9" and vb: "0 \<le> digit_value b" "digit_value b \<le> 9"
    using ab by (auto simp: isdecimal_def digit_value_def)
  have v: "nat (decimal_value h) = 10 * nat (digit_value a) + nat (digit_value b)"
    using va vb by (simp add: h decimal_value_def nat_add_distrib nat_mult_distrib)
  have "nat (digit_value b) < 10" using vb by simp
  then have "nat (decimal_value h) div 10 = nat (digit_value a)"
    "nat (decimal_value h) mod 10 = nat (digit_value b)"
    unfolding v by simp_all
  then show ?thesis
    by (simp add: two_digits_def h digit_chr_digit_value ab)
qed

lemma three_digits_decimal_value:
  assumes "length h = 3" "list_all isdecimal h"
  shows "three_digits (nat (decimal_value h)) = h"
proof -
  from assms obtain a b c where h: "h = [a, b, c]"
    and abc: "isdecimal a" "isdecimal b" "isdecimal c"
    by (auto simp: length_3_conv)
  have va: "0 \<le> digit_value a" "digit_value a \<le> 9" and vb: "0 \<le> digit_value b" "digit_value b \<le> 9"
    and vc: "0 \<le> digit_value c" "digit_value c \<le> 9"
    using abc by (auto simp: isdecimal_def digit_value_def)
  define x y z where "x = nat (digit_value a)" and "y = nat (digit_value b)" and "z = nat (digit_value c)"
  have lt: "x < 10" "y < 10" "z < 10"
    using va vb vc by (simp_all add: x_def y_def z_def)
  have v: "nat (decimal_value h) = 100 * x + 10 * y + z"
    using va vb vc by (simp add: h decimal_value_def nat_add_distrib nat_mult_distrib x_def y_def z_def)
  have r: "10 * y + z < 100" using lt by simp
  have "(100 * x + 10 * y + z) div 100 = x"
    using r by (simp add: add.assoc)
  moreover have e: "100 * x + 10 * y + z = z + (10 * x + y) * 10"
    by simp
  have "(100 * x + 10 * y + z) div 10 = 10 * x + y"
    unfolding e using lt by (simp only: div_mult_self1 div_less)
  then have "(100 * x + 10 * y + z) div 10 mod 10 = y"
    using lt by simp
  moreover have "(100 * x + 10 * y + z) mod 10 = z"
    unfolding e using lt by (simp only: mod_mult_self1 mod_less)
  ultimately have "three_digits (nat (decimal_value h)) = [digit_chr x, digit_chr y, digit_chr z]"
    unfolding v three_digits_def by simp
  then show ?thesis
    by (simp add: h x_def y_def z_def digit_chr_digit_value abc)
qed

lemma div_mod_step:
  fixes r q b :: int
  assumes "0 \<le> r" "r < b"
  shows "(r + b * q) div b = q" "(r + b * q) mod b = r"
  using assms by (simp_all add: div_pos_pos_trivial)

lemma timestamp_value_parts:
  assumes "timestamp_fields h m sec d"
  defines "n \<equiv> millis (timestamp_value h m sec d)"
  shows "n div 3600000 = decimal_value h"
    and "n mod 3600000 div 60000 = decimal_value m"
    and "n mod 60000 div 1000 = decimal_value sec"
    and "n mod 1000 = decimal_value d"
proof -
  define H M S D where "H = decimal_value h" and "M = decimal_value m"
    and "S = decimal_value sec" and "D = decimal_value d"
  have b: "0 \<le> H" "H \<le> 23" "0 \<le> M" "M \<le> 59" "0 \<le> S" "S \<le> 59" "0 \<le> D" "D \<le> 999"
    using assms(1) hours_text_bounds [of h] sixty_text_bounds [of m] sixty_text_bounds [of sec]
      millis_text_bounds [of d]
    by (simp_all add: timestamp_fields_def H_def M_def S_def D_def)
  have n: "n = (D + 1000 * S + 60000 * M) + 3600000 * H"
    by (simp add: n_def timestamp_value_def H_def M_def S_def D_def)
  have r1: "0 \<le> D + 1000 * S + 60000 * M" "D + 1000 * S + 60000 * M < 3600000"
    using b by simp_all
  have r2: "0 \<le> D + 1000 * S" "D + 1000 * S < 60000"
    using b by simp_all
  have r3: "0 \<le> D" "D < 1000"
    using b by simp_all
  have 1: "n div 3600000 = H" and 2: "n mod 3600000 = (D + 1000 * S) + 60000 * M"
    unfolding n using div_mod_step [OF r1, of H] by simp_all
  have 3: "n mod 3600000 div 60000 = M" and 4: "n mod 3600000 mod 60000 = D + 1000 * S"
    unfolding 2 using div_mod_step [OF r2, of M] by simp_all
  have 5: "n mod 60000 = D + 1000 * S"
    using 4 by (simp add: mod_mod_cancel)
  have 6: "n mod 60000 div 1000 = S" and 7: "n mod 60000 mod 1000 = D"
    unfolding 5 using div_mod_step [OF r3, of S] by simp_all
  have 8: "n mod 1000 = D"
    using 7 by (simp add: mod_mod_cancel)
  show "n div 3600000 = decimal_value h" using 1 by (simp add: H_def)
  show "n mod 3600000 div 60000 = decimal_value m" using 3 by (simp add: M_def)
  show "n mod 60000 div 1000 = decimal_value sec" using 6 by (simp add: S_def)
  show "n mod 1000 = decimal_value d" using 8 by (simp add: D_def)
qed

lemma Timestamp_str_timestamp_value:
  assumes f: "timestamp_fields h m sec d"
    and len: "length h = 2" "length m = 2" "length sec = 2" "length d = 3"
  shows "Timestamp_str (timestamp_value h m sec d) = Inr (timestamp_text h m sec d)"
proof -
  let ?n = "millis (timestamp_value h m sec d)"
  have t: "timestamp_value h m sec d = \<lparr>millis = ?n\<rparr>"
    by simp
  have b: "0 \<le> ?n" "?n < 86400000"
    using timestamp_value_bounds [OF f] by simp_all
  have dec: "list_all isdecimal h" "list_all isdecimal m" "list_all isdecimal sec"
    "list_all isdecimal d"
    using f by (simp_all add: timestamp_fields_def hours_text_def sixty_text_def millis_text_def)
  have "Timestamp_str \<lparr>millis = ?n\<rparr> =
          Inr (timestamp_text (two_digits (nat (decimal_value h)))
                 (two_digits (nat (decimal_value m))) (two_digits (nat (decimal_value sec)))
                 (three_digits (nat (decimal_value d))))"
    unfolding Timestamp_str_canonical [OF b] timestamp_value_parts [OF f] ..
  then show ?thesis
    unfolding t [symmetric]
    by (simp add: two_digits_decimal_value three_digits_decimal_value len dec)
qed

lemma two_digits_shape: "k < 100 \<Longrightarrow> length (two_digits k) = 2 \<and> list_all isdecimal (two_digits k)"
  by (simp add: two_digits_def isdecimal_digit_chr)

section \<open>Parsing well-formed documents\<close>

text \<open>
  The parser is followed line by line through a well-formed block, from one block to
  the next, and to the end of the file; then through the lines on which it raises.
\<close>

lemma bind_Inr: "bind (Inr x) f = f x"
  by (simp add: bind_def)

lemma parse_lines_append:
  "parse_lines p (xs @ ys) = bind (parse_lines p xs) (\<lambda>p'. parse_lines p' ys)"
  by (induction xs arbitrary: p) (auto simp add: bind_def split: sum.splits)

lemma decimal_isdigit: "s \<noteq> [] \<Longrightarrow> list_all isdecimal s \<Longrightarrow> isdigit s"
  by (auto simp add: isdigit_def isdigit_chr_def list_all_iff)

lemma parse_number_line:
  assumes "state p = NEW_SUBTITLE" "strip nl \<noteq> []" "list_all isdecimal (strip nl)"
    "length (strip nl) \<le> int_max_str_digits"
  shows "parse_line p nl = Inr (p\<lparr>cur_number := Some (decimal_value (strip nl)), state := TIMESTAMPS\<rparr>)"
  using assms(1,2) decimal_isdigit [OF assms(2,3)] py_int_decimal [OF assms(2,3,4)]
  by (simp add: parse_line_def bind_def)

lemma long_number_line:
  assumes "state p = NEW_SUBTITLE" "list_all isdecimal (strip nl)"
    "int_max_str_digits < length (strip nl)"
  shows "parse_line p nl = Inl (int_limit_error (length (strip nl)))"
proof -
  have ne: "strip nl \<noteq> []"
    using assms(3) by auto
  have digits: "takeWhile isdecimal (strip nl) = strip nl"
    using assms(2) by (simp add: takeWhile_eq_all_conv list_all_iff)
  show ?thesis
    using assms(1,3) ne decimal_isdigit [OF ne assms(2)]
    by (simp add: parse_line_def py_int_def digits bind_def Let_def)
qed

lemma parse_timestamp_line:
  assumes "state p = TIMESTAMPS" "is_timestamp_text (strip a)" "is_timestamp_text (strip b)"
  shows "parse_line p (a @ ''-->'' @ b) =
           Inr (p\<lparr>cur_start := Some (timestamp_of (strip a)),
                  cur_end := Some (timestamp_of (strip b)), state := TEXT\<rparr>)"
proof -
  have ne: "strip a \<noteq> []" "strip b \<noteq> []"
    using timestamp_text_chars assms(2,3) by blast+
  have line: "strip (a @ ''-->'' @ b) = lstrip a @ ''-->'' @ rstrip b"
    by (rule strip_around [OF ne])
  have "CHR ''-'' \<notin> set (lstrip a)" "CHR ''-'' \<notin> set (rstrip b)"
    using no_dash_around_timestamp assms(2,3) set_lstrip [of a] set_rstrip [of b] by blast+
  then have parts: "py_split (lstrip a @ ''-->'' @ rstrip b) ''-->'' = [lstrip a, rstrip b]"
    by (rule py_split_arrow)
  show ?thesis
    using assms(1)
    by (simp add: parse_line_def line parts Let_def strip_lstrip strip_rstrip bind_def
        from_str_timestamp_text [OF assms(2)] from_str_timestamp_text [OF assms(3)]
        del: append.simps)
qed

lemma parse_text_lines:
  assumes "state p = TEXT" "list_all (\<lambda>l. strip l \<noteq> []) txts"
  shows "parse_lines p txts = Inr (p\<lparr>cur_text := cur_text p @ map strip txts\<rparr>)"
  using assms
proof (induction txts arbitrary: p)
  case Nil
  then show ?case by simp
next
  case (Cons l txts)
  then have "parse_line p l = Inr (p\<lparr>cur_text := cur_text p @ [strip l]\<rparr>)"
    by (simp add: parse_line_def)
  with Cons show ?case
    by (simp add: bind_def)
qed

lemma parse_block:
  assumes "readable b"
  shows "parse_lines (between_blocks subs) (block_lines b) = Inr (in_block subs b)"
proof -
  note wf = assms [unfolded readable_def well_formed_def]
  let ?p1 = "(between_blocks subs)\<lparr>cur_number := Some (decimal_value (strip (number_line b))),
               state := TIMESTAMPS\<rparr>"
  let ?p2 = "?p1\<lparr>cur_start := Some (timestamp_of (strip (start_part b))),
                  cur_end := Some (timestamp_of (strip (end_part b))), state := TEXT\<rparr>"
  have 1: "parse_line (between_blocks subs) (number_line b) = Inr ?p1"
    using wf by (intro parse_number_line) (simp_all add: between_blocks_def)
  have 2: "parse_line ?p1 (start_part b @ ''-->'' @ end_part b) = Inr ?p2"
    using wf by (intro parse_timestamp_line) simp_all
  have 3: "parse_lines ?p2 (text_lines b) = Inr (?p2\<lparr>cur_text := cur_text ?p2 @ map strip (text_lines b)\<rparr>)"
    using wf by (intro parse_text_lines) simp_all
  have "parse_lines (between_blocks subs) (block_lines b) = parse_lines ?p2 (text_lines b)"
    using 1 2 by (simp add: block_lines_def bind_Inr)
  also note 3
  finally show ?thesis
    by (simp add: in_block_def between_blocks_def record_of_def)
qed

lemma parse_blank_after_block:
  assumes "well_formed b" "strip blank = []"
  shows "parse_line (in_block subs b) blank = Inr (between_blocks (subs @ [record_of b]))"
  using assms
  by (simp add: parse_line_def in_block_def between_blocks_def well_formed_def record_of_def)

lemma parse_blank_between_blocks:
  "strip blank = [] \<Longrightarrow> parse_line (between_blocks subs) blank = Inr (between_blocks subs)"
  by (simp add: parse_line_def between_blocks_def)

lemma parse_end_in_block:
  "well_formed b \<Longrightarrow> parse_end (in_block subs b) = Inr (subs @ [record_of b])"
  by (simp add: parse_end_def in_block_def well_formed_def record_of_def)

lemma parse_end_between_blocks: "parse_end (between_blocks subs) = Inr subs"
  by (simp add: parse_end_def between_blocks_def)

lemma parse_separated:
  assumes "list_all (\<lambda>(b, blank). readable b \<and> is_blank blank) bs"
  shows "parse_lines (between_blocks subs) (separated bs)
           = Inr (between_blocks (subs @ records_of bs))"
  using assms
proof (induction bs arbitrary: subs)
  case Nil
  show ?case
    by (simp add: separated_def records_of_def)
next
  case (Cons x bs)
  obtain b blank where x: "x = (b, blank)"
    by (cases x)
  from Cons.prems have b: "readable b" "strip blank = []"
    and rest: "list_all (\<lambda>(b, blank). readable b \<and> is_blank blank) bs"
    by (simp_all add: x is_blank_def)
  have wf: "well_formed b"
    using b(1) by (simp add: readable_def)
  have "separated (x # bs) = block_lines b @ [blank] @ separated bs"
    by (simp add: separated_def x)
  then have "parse_lines (between_blocks subs) (separated (x # bs))
          = parse_lines (between_blocks (subs @ [record_of b])) (separated bs)"
    by (simp add: parse_lines_append parse_block [OF b(1)] bind_Inr
        parse_blank_after_block [OF wf b(2)])
  also have "\<dots> = Inr (between_blocks ((subs @ [record_of b]) @ records_of bs))"
    by (rule Cons.IH [OF rest])
  finally show ?case
    by (simp add: records_of_def x)
qed

lemma parser_init_between_blocks: "parser_init = between_blocks []"
  by (simp add: parser_init_def between_blocks_def)

lemma foldl_decimal_nonneg:
  "list_all isdecimal s \<Longrightarrow> 0 \<le> acc \<Longrightarrow> 0 \<le> foldl (\<lambda>acc c. 10 * acc + digit_value c) acc s"
proof (induction s arbitrary: acc)
  case Nil
  then show ?case by simp
next
  case (Cons c s)
  then have "0 \<le> 10 * acc + digit_value c"
    by (simp add: isdecimal_def digit_value_def)
  with Cons show ?case by simp
qed

lemma py_int_nonneg: "py_int s = Inr n \<Longrightarrow> 0 \<le> n"
proof -
  assume r: "py_int s = Inr n"
  then have all: "length (takeWhile isdecimal s) = length s" and n: "n = decimal_value s"
    using length_takeWhile_le [of isdecimal s]
    by (auto simp add: py_int_def Let_def split: if_splits)
  from all have "takeWhile isdecimal s = s"
    by (metis takeWhile_eq_take take_all order_refl)
  then have "list_all isdecimal s"
    by (simp add: takeWhile_eq_all_conv list_all_iff)
  from foldl_decimal_nonneg [OF this, of 0] n show ?thesis
    by (simp add: decimal_value_def)
qed

lemma parser_inv_init: "parser_inv parser_init"
  by (simp add: parser_inv_def parser_init_def)

lemma parse_line_inv:
  assumes "parser_inv p" "parse_line p l = Inr p'"
  shows "parser_inv p'"
proof (cases "state p")
  case NEW_SUBTITLE
  with assms show ?thesis
    by (auto simp add: parse_line_def parser_inv_def Let_def bind_def
        split: if_splits sum.splits dest: py_int_nonneg)
next
  case TIMESTAMPS
  with assms show ?thesis
    by (auto simp add: parse_line_def parser_inv_def Let_def bind_def
        split: if_splits sum.splits)
next
  case TEXT
  with assms show ?thesis
    by (auto simp add: parse_line_def parser_inv_def Let_def
        split: if_splits option.splits)
qed

lemma parse_lines_inv:
  "parser_inv p \<Longrightarrow> parse_lines p ls = Inr p' \<Longrightarrow> parser_inv p'"
proof (induction ls arbitrary: p)
  case Nil
  then show ?case by simp
next
  case (Cons l ls)
  then show ?case
    by (auto simp add: bind_def split: sum.splits dest: parse_line_inv)
qed

lemma parse_end_numbers:
  assumes "parser_inv p" "parse_end p = Inr subs"
  shows "list_all (\<lambda>s. 0 \<le> number s) subs"
  using assms
  by (auto simp add: parse_end_def parser_inv_def split: if_splits option.splits)

lemma parse_srt_file_numbers:
  assumes "parse_srt_file file = Inr subs"
  shows "list_all (\<lambda>s. 0 \<le> number s) subs"
proof -
  from assms obtain p where p: "parse_lines parser_init file = Inr p" and e: "parse_end p = Inr subs"
    by (auto simp add: parse_srt_file_def bind_def split: sum.splits)
  from parse_lines_inv [OF parser_inv_init p] e show ?thesis
    by (rule parse_end_numbers)
qed

lemma delayed_records_numbers: "s \<in> set (delayed_records d subs) \<Longrightarrow> 1 \<le> number s"
  by (auto simp add: delayed_records_def in_set_enumerate_eq shifted_def)

lemma error_after_prefix:
  assumes "parse_lines parser_init pre = Inr p" "parse_line p l = Inl e"
  shows "parse_srt_file (pre @ l # post) = Inl e"
  using assms by (simp add: parse_srt_file_def parse_lines_append bind_def)

lemma error_at_end:
  assumes "parse_lines parser_init pre = Inr p" "parse_end p = Inl e"
  shows "parse_srt_file pre = Inl e"
  using assms by (simp add: parse_srt_file_def bind_def)

lemma py_int_not_decimal:
  assumes "\<not> list_all isdecimal s"
  shows "\<exists>args. py_int s = Inl (ValueError args)"
proof -
  have "takeWhile isdecimal s \<noteq> s"
    using assms by (simp add: takeWhile_eq_all_conv list_all_iff)
  then have "length (takeWhile isdecimal s) \<noteq> length s"
    by (metis takeWhile_eq_take take_all order_refl)
  with length_takeWhile_le [of isdecimal s] have "length (takeWhile isdecimal s) < length s"
    by simp
  then show ?thesis
    by (simp add: py_int_def Let_def int_limit_error_def)
qed

lemma bad_number_line:
  assumes "state p = NEW_SUBTITLE" "strip l \<noteq> []" "\<not> list_all isdecimal (strip l)"
  shows "\<exists>args. parse_line p l = Inl (ValueError args)"
proof (cases "isdigit (strip l)")
  case True
  from py_int_not_decimal [OF assms(3)] obtain args where "py_int (strip l) = Inl (ValueError args)"
    by blast
  with True assms(1,2) show ?thesis
    by (simp add: parse_line_def bind_def Let_def)
next
  case False
  with assms(1,2) show ?thesis
    by (simp add: parse_line_def Let_def)
qed

lemma bad_arrow_line:
  assumes "state p = TIMESTAMPS" "length (py_split (strip l) ''-->'') \<noteq> 2"
  shows "\<exists>args. parse_line p l = Inl (ValueError args)"
  using assms by (simp add: parse_line_def Let_def)

lemma bad_timestamp_line:
  assumes "state p = TIMESTAMPS" "py_split (strip l) ''-->'' = [a, b]"
    "\<not> (is_timestamp_text (strip a) \<and> is_timestamp_text (strip b))"
  shows "\<exists>args. parse_line p l = Inl (ValueError args)"
proof (cases "is_timestamp_text (strip a)")
  case False
  then show ?thesis
    using assms(1,2) by (simp add: parse_line_def Let_def from_str_other_text bind_def)
next
  case True
  with assms(3) have "\<not> is_timestamp_text (strip b)"
    by simp
  then show ?thesis
    using assms(1,2) True
    by (simp add: parse_line_def Let_def from_str_other_text from_str_timestamp_text bind_def)
qed

lemma timestamp_line_read:
  assumes "state p = TIMESTAMPS" "parse_line p l = Inr q"
  shows "state q = TEXT \<and> cur_text q = cur_text p"
  using assms
  by (auto simp add: parse_line_def Let_def bind_def split: if_splits sum.splits)

lemma blank_without_text:
  assumes "state q = TEXT" "cur_text q = []" "strip k = []"
  shows "parse_line q k = Inl (ValueError [''expected at least one line of text after timestamps''])"
  using assms by (simp add: parse_line_def)

lemma end_without_text:
  assumes "state q = TEXT" "cur_text q = []"
  shows "parse_end q = Inl (ValueError [''file ended in the middle of incomplete subtitle''])"
  using assms by (simp add: parse_end_def)

lemma end_expecting_timestamps:
  assumes "state p = TIMESTAMPS"
  shows "parse_end p = Inl (ValueError [''file ended in the middle of incomplete subtitle''])"
  using assms by (simp add: parse_end_def)

lemma no_pending_text:
  assumes "parse_lines parser_init pre = Inr p" "state p = TIMESTAMPS"
  shows "cur_text p = []"
  using parse_lines_inv [OF parser_inv_init assms(1)] assms(2)
  by (simp add: parser_inv_def)

lemma parse_lines_snoc:
  "parse_lines p pre = Inr p' \<Longrightarrow> parse_line p' l = Inr q \<Longrightarrow> parse_lines p (pre @ [l]) = Inr q"
  by (simp add: parse_lines_append bind_def)

lemma foldl_decimal_less:
  "list_all isdecimal s \<Longrightarrow> 0 \<le> acc \<Longrightarrow>
   foldl (\<lambda>acc c. 10 * acc + digit_value c) acc s < (acc + 1) * 10 ^ length s"
proof (induction s arbitrary: acc)
  case Nil
  then show ?case by simp
next
  case (Cons c s)
  then have c: "0 \<le> digit_value c" "digit_value c \<le> 9"
    by (simp_all add: isdecimal_def digit_value_def)
  with Cons.prems have "0 \<le> 10 * acc + digit_value c"
    by simp
  with Cons have "foldl (\<lambda>acc c. 10 * acc + digit_value c) (10 * acc + digit_value c) s
      < (10 * acc + digit_value c + 1) * 10 ^ length s"
    by simp
  also have "\<dots> \<le> (10 * acc + 10) * 10 ^ length s"
    using c by (intro mult_right_mono) simp_all
  finally show ?case
    by (simp add: algebra_simps)
qed

lemma py_int_convertible:
  assumes "py_int s = Inr n"
  shows "convertible n"
proof -
  from assms have all: "length (takeWhile isdecimal s) = length s"
    and len: "length s \<le> int_max_str_digits" and n: "n = decimal_value s"
    using length_takeWhile_le [of isdecimal s]
    by (auto simp add: py_int_def Let_def split: if_splits)
  from all have "takeWhile isdecimal s = s"
    by (metis takeWhile_eq_take take_all order_refl)
  then have dec: "list_all isdecimal s"
    by (simp add: takeWhile_eq_all_conv list_all_iff)
  from foldl_decimal_less [OF dec, of 0] have "n < 10 ^ length s"
    by (simp add: n decimal_value_def)
  also have "(10::int) ^ length s \<le> 10 ^ int_max_str_digits"
    using len by (intro power_increasing) simp_all
  finally have "n < 10 ^ int_max_str_digits" .
  moreover have "0 \<le> n"
    using assms by (rule py_int_nonneg)
  ultimately show ?thesis
    by (simp add: convertible_def)
qed

lemma parser_conv_init: "parser_conv parser_init"
  by (simp add: parser_conv_def parser_init_def)

lemma parse_line_conv:
  assumes "parser_conv p" "parse_line p l = Inr p'"
  shows "parser_conv p'"
proof (cases "state p")
  case NEW_SUBTITLE
  with assms show ?thesis
    by (auto simp add: parse_line_def parser_conv_def Let_def bind_def
        split: if_splits sum.splits dest: py_int_convertible)
next
  case TIMESTAMPS
  with assms show ?thesis
    by (auto simp add: parse_line_def parser_conv_def Let_def bind_def
        split: if_splits sum.splits)
next
  case TEXT
  with assms show ?thesis
    by (auto simp add: parse_line_def parser_conv_def Let_def
        split: if_splits option.splits)
qed

lemma parse_lines_conv:
  "parser_conv p \<Longrightarrow> parse_lines p ls = Inr p' \<Longrightarrow> parser_conv p'"
proof (induction ls arbitrary: p)
  case Nil
  then show ?case by simp
next
  case (Cons l ls)
  then show ?case
    by (auto simp add: bind_def split: sum.splits dest: parse_line_conv)
qed

lemma parse_srt_file_convertible:
  assumes "parse_srt_file doc = Inr subs"
  shows "list_all (\<lambda>s. convertible (number s)) subs"
proof -
  from assms obtain p where p: "parse_lines parser_init doc = Inr p" and e: "parse_end p = Inr subs"
    by (auto simp add: parse_srt_file_def bind_def split: sum.splits)
  from parse_lines_conv [OF parser_conv_init p] e show ?thesis
    by (auto simp add: parse_end_def parser_conv_def split: if_splits option.splits)
qed

lemma dropWhile_no_space: "list_all (\<lambda>c. \<not> isspace c) xs \<Longrightarrow> dropWhile isspace xs = xs"
  by (cases xs) simp_all

lemma no_space_strip: "list_all (\<lambda>c. \<not> isspace c) s \<Longrightarrow> strip s = s"
  by (simp add: strip_def lstrip_def rstrip_def dropWhile_no_space)

lemma decimal_replicate: "isdecimal c \<Longrightarrow> list_all isdecimal (replicate n c)"
  by (simp add: list_all_iff)

lemma no_space_replicate: "\<not> isspace c \<Longrightarrow> list_all (\<lambda>c. \<not> isspace c) (replicate n c)"
  by (simp add: list_all_iff)

lemma int_limit_error_4301:
  "int_limit_error 4301 =
     ValueError [''Exceeds the limit (4300 digits) for integer string conversion: value has 4301 digits; use sys.set_int_max_str_digits() to increase the limit'']"
  by (simp add: int_limit_error_def int_max_str_digits_def str_nat.simps digit_chr_def
      char_of_eq_iff)

lemma long_number_block:
  assumes "list_all isdecimal s" "list_all (\<lambda>c. \<not> isspace c) s"
    "int_max_str_digits < length s"
    "is_timestamp_text (strip a)" "is_timestamp_text (strip b)"
    "txt \<noteq> []" "list_all (\<lambda>l. strip l \<noteq> []) txt"
  shows "well_formed \<lparr>number_line = s, start_part = a, end_part = b, text_lines = txt\<rparr>
         \<and> parse_srt_file
              (block_lines \<lparr>number_line = s, start_part = a, end_part = b, text_lines = txt\<rparr>)
            = Inl (int_limit_error (length s))"
proof -
  have strip: "strip s = s"
    using assms(2) by (rule no_space_strip)
  have ne: "s \<noteq> []"
    using assms(3) by auto
  have "parse_line parser_init s = Inl (int_limit_error (length (strip s)))"
    using assms(1,3) by (intro long_number_line) (simp_all add: strip parser_init_def)
  then have "parse_srt_file
      (block_lines \<lparr>number_line = s, start_part = a, end_part = b, text_lines = txt\<rparr>)
      = Inl (int_limit_error (length s))"
    by (simp add: parse_srt_file_def block_lines_def bind_def strip)
  moreover have "well_formed \<lparr>number_line = s, start_part = a, end_part = b, text_lines = txt\<rparr>"
    using assms ne by (simp add: well_formed_def strip)
  ultimately show ?thesis by blast
qed

section \<open>Properties of \<open>delayed_by\<close>\<close>

text \<open>
  Claim C4.  For every timestamp and every integer offset: when the sum of the
  timestamp's milliseconds and the offset is not negative, \<open>delayed_by\<close> returns a
  timestamp holding that sum, whatever \<open>clamp_to_zero\<close> is; this is so in particular
  for a non-negative timestamp and a non-negative offset.  When the sum is negative,
  \<open>delayed_by\<close> returns the timestamp 0 with \<open>clamp_to_zero\<close> set, and raises
  \<open>NegativeTimestampException\<close>, returning no value, with \<open>clamp_to_zero\<close> unset.
\<close>

theorem delayed_by_policy:
  "(0 \<le> millis t1 + d1 \<longrightarrow> delayed_by t1 d1 X1 = Inr \<lparr>millis = millis t1 + d1\<rparr>)
   \<and> (0 \<le> millis t2 \<and> 0 \<le> d2 \<longrightarrow> delayed_by t2 d2 X2 = Inr \<lparr>millis = millis t2 + d2\<rparr>)
   \<and> (millis t3 + d3 < 0 \<longrightarrow>
         delayed_by t3 d3 True = Inr \<lparr>millis = 0\<rparr>
         \<and> delayed_by t3 d3 False = Inl NegativeTimestampException)"
  by (simp add: delayed_by_def max_def)

theorem delayed_by_policy_witness:
  "delayed_by \<lparr>millis = 1000\<rparr> (- 400) False = Inr \<lparr>millis = 600\<rparr>
   \<and> delayed_by \<lparr>millis = 0\<rparr> 7 True = Inr \<lparr>millis = 7\<rparr>
   \<and> delayed_by \<lparr>millis = 500\<rparr> (- 1000) True = Inr \<lparr>millis = 0\<rparr>
   \<and> delayed_by \<lparr>millis = 500\<rparr> (- 1000) False = Inl NegativeTimestampException"
  using delayed_by_policy [of "\<lparr>millis = 1000\<rparr>" "- 400" False
                              "\<lparr>millis = 0\<rparr>" 7 True
                              "\<lparr>millis = 500\<rparr>" "- 1000"]
  by simp

section \<open>Properties of the delay transform\<close>

lemma removal_notice_convertible:
  "convertible (number sub) \<Longrightarrow> removal_notice sub = Inr (notice_text sub)"
  by (simp add: removal_notice_def py_str_convertible bind_def notice_text_def)

lemma removal_notice_not_convertible:
  "\<not> convertible (number sub) \<Longrightarrow> removal_notice sub = Inl str_limit_error"
  by (simp add: removal_notice_def py_str_not_convertible bind_def)

lemma delay_one_survives:
  "survives d sub \<Longrightarrow>
   delay_one d (rv, printed) sub = Inr (rv @ [shifted d (Suc (length rv)) sub], printed)"
  by (simp add: delay_one_def delayed_by_def bind_def survives_def shifted_def)

lemma delay_one_dropped:
  "\<not> survives d sub \<Longrightarrow> convertible (number sub) \<Longrightarrow>
   delay_one d (rv, printed) sub = Inr (rv, printed @ [notice_text sub])"
  by (simp add: delay_one_def delayed_by_def bind_def survives_def removal_notice_convertible)

lemma delay_one_raises:
  "\<not> survives d sub \<Longrightarrow> \<not> convertible (number sub) \<Longrightarrow>
   delay_one d (rv, printed) sub = Inl str_limit_error"
  by (simp add: delay_one_def delayed_by_def bind_def survives_def
      removal_notice_not_convertible)

lemma delay_loop_result:
  "dropped_convertible d subs \<Longrightarrow>
   delay_loop d (rv, printed) subs =
     Inr (rv @ map (\<lambda>(pos, sub). shifted d pos sub)
                 (enumerate (Suc (length rv)) (filter (survives d) subs)),
          printed @ removal_notices d subs)"
proof (induction subs arbitrary: rv printed)
  case Nil
  show ?case by (simp add: removal_notices_def)
next
  case (Cons sub subs)
  show ?case
  proof (cases "survives d sub")
    case True
    with Cons.prems have "dropped_convertible d subs"
      by (simp add: dropped_convertible_def)
    from Cons.IH [OF this] True show ?thesis
      by (simp add: delay_one_survives bind_def removal_notices_def)
  next
    case False
    with Cons.prems have "convertible (number sub)" "dropped_convertible d subs"
      by (simp_all add: dropped_convertible_def)
    from Cons.IH [OF this(2)] this(1) False show ?thesis
      by (simp add: delay_one_dropped bind_def removal_notices_def)
  qed
qed

lemma delay_loop_raises:
  "\<not> dropped_convertible d subs \<Longrightarrow> delay_loop d st subs = Inl str_limit_error"
proof (induction subs arbitrary: st)
  case Nil
  then show ?case by (simp add: dropped_convertible_def)
next
  case (Cons sub subs)
  obtain rv printed where st: "st = (rv, printed)"
    by (cases st)
  consider "survives d sub" | "\<not> survives d sub" "convertible (number sub)"
    | "\<not> survives d sub" "\<not> convertible (number sub)"
    by blast
  then show ?case
  proof cases
    case 1
    with Cons.prems have "\<not> dropped_convertible d subs"
      by (simp add: dropped_convertible_def)
    from Cons.IH [OF this] 1 show ?thesis
      by (simp add: st delay_one_survives bind_def)
  next
    case 2
    with Cons.prems have "\<not> dropped_convertible d subs"
      by (simp add: dropped_convertible_def)
    from Cons.IH [OF this] 2 show ?thesis
      by (simp add: st delay_one_dropped bind_def)
  next
    case 3
    then show ?thesis
      by (simp add: st delay_one_raises bind_def)
  qed
qed

lemma delay_subtitles_result:
  "delay_subtitles subs d =
     (if dropped_convertible d subs
      then Inr (delayed_records d subs, removal_notices d subs)
      else Inl str_limit_error)"
  by (simp add: delay_subtitles_def delay_loop_result delay_loop_raises delayed_records_def)

lemma delay_subtitles_records:
  "delay_subtitles subs d = Inr (rv, printed) \<Longrightarrow> rv = delayed_records d subs"
  by (simp add: delay_subtitles_result split: if_splits)

lemma str_limit_error_text:
  "str_limit_error =
     ValueError [''Exceeds the limit (4300 digits) for integer string conversion; use sys.set_int_max_str_digits() to increase the limit'']"
  by (simp add: str_limit_error_def int_max_str_digits_def str_nat.simps digit_chr_def
      char_of_eq_iff)

lemma not_convertible_limit: "\<not> convertible (10 ^ int_max_str_digits)"
  by (simp add: convertible_def)

lemma convertible_below_1000: "\<bar>n\<bar> < 1000 \<Longrightarrow> convertible n"
proof -
  assume "\<bar>n\<bar> < 1000"
  then have "nat \<bar>n\<bar> < 10 ^ Suc 2"
    by simp
  then have "length (str_nat (nat \<bar>n\<bar>)) \<le> Suc 2"
    by (simp only: length_str_nat_le)
  then show ?thesis
    by (simp add: convertible_iff int_max_str_digits_def)
qed

lemma unconvertible_drop_raises:
  assumes "\<not> convertible n" "millis e + d < 0"
  shows "delay_subtitles (pre @ \<lparr>number = n, start = a, end' = e, text' = x\<rparr> # post) d
           = Inl str_limit_error"
proof -
  have "\<not> dropped_convertible d (pre @ \<lparr>number = n, start = a, end' = e, text' = x\<rparr> # post)"
    using assms by (simp add: dropped_convertible_def survives_def)
  then show ?thesis
    by (simp add: delay_subtitles_result)
qed

lemma parsed_dropped_convertible:
  "parse_srt_file doc = Inr subs \<Longrightarrow> dropped_convertible d subs"
  using parse_srt_file_convertible [of doc subs]
  by (simp add: dropped_convertible_def list_all_iff)

text \<open>
  Claim C2, as amended.  For every list of records in which each record whose end plus
  the offset is negative has a number of at most 4300 decimal digits, and every offset,
  \<open>delay_subtitles\<close> returns, in input order, one record for each input record whose end
  plus the offset is not negative, and none for the others; a surviving record has its
  start set to the maximum of start plus offset and 0, its end to end plus offset, its
  text unchanged, and as number its position in the output, counted from 1.  In
  particular three records numbered 5, 9, 12 with ends 500, 2000, 5000 under the offset
  -1000 give exactly two records, numbered 1 and 2, with ends 1000 and 4000.  With a
  dropped record of a longer number the function raises while it formats the notice:
  see the counterexample.
\<close>

theorem delay_subtitles_elides_and_renumbers:
  "(dropped_convertible d subs \<longrightarrow>
      (\<exists>printed. delay_subtitles subs d = Inr (delayed_records d subs, printed)))
   \<and> (\<exists>printed. delay_subtitles
         [\<lparr>number = 5, start = a1, end' = \<lparr>millis = 500\<rparr>, text' = x1\<rparr>,
          \<lparr>number = 9, start = a2, end' = \<lparr>millis = 2000\<rparr>, text' = x2\<rparr>,
          \<lparr>number = 12, start = a3, end' = \<lparr>millis = 5000\<rparr>, text' = x3\<rparr>] (- 1000)
       = Inr ([\<lparr>number = 1, start = \<lparr>millis = max (millis a2 - 1000) 0\<rparr>,
                 end' = \<lparr>millis = 1000\<rparr>, text' = x2\<rparr>,
               \<lparr>number = 2, start = \<lparr>millis = max (millis a3 - 1000) 0\<rparr>,
                 end' = \<lparr>millis = 4000\<rparr>, text' = x3\<rparr>], printed))"
proof -
  have "convertible 5"
    by (rule convertible_below_1000) simp
  then show ?thesis
    by (simp add: delay_subtitles_result dropped_convertible_def delayed_records_def
        survives_def shifted_def enumerate_eq_zip)
qed

theorem delay_subtitles_elides_and_renumbers_witness:
  "\<exists>printed. delay_subtitles
     [\<lparr>number = 7, start = \<lparr>millis = 100\<rparr>, end' = \<lparr>millis = 400\<rparr>, text' = [''Hi'']\<rparr>,
      \<lparr>number = 8, start = \<lparr>millis = 600\<rparr>, end' = \<lparr>millis = 2000\<rparr>, text' = [''Hello'']\<rparr>,
      \<lparr>number = 9, start = \<lparr>millis = 5000\<rparr>, end' = \<lparr>millis = 6000\<rparr>, text' = [''World'']\<rparr>]
     (- 1000)
   = Inr ([\<lparr>number = 1, start = \<lparr>millis = 0\<rparr>, end' = \<lparr>millis = 1000\<rparr>, text' = [''Hello'']\<rparr>,
           \<lparr>number = 2, start = \<lparr>millis = 4000\<rparr>, end' = \<lparr>millis = 5000\<rparr>, text' = [''World'']\<rparr>],
          printed)"
proof -
  let ?subs = "[\<lparr>number = 7, start = \<lparr>millis = 100\<rparr>, end' = \<lparr>millis = 400\<rparr>, text' = [''Hi'']\<rparr>,
      \<lparr>number = 8, start = \<lparr>millis = 600\<rparr>, end' = \<lparr>millis = 2000\<rparr>, text' = [''Hello'']\<rparr>,
      \<lparr>number = 9, start = \<lparr>millis = 5000\<rparr>, end' = \<lparr>millis = 6000\<rparr>, text' = [''World'']\<rparr>]"
  have "convertible 7"
    by (rule convertible_below_1000) simp
  then have h: "dropped_convertible (- 1000) ?subs"
    by (simp add: dropped_convertible_def survives_def)
  from delay_subtitles_elides_and_renumbers [of "- 1000" ?subs] h show ?thesis
    by (simp add: delayed_records_def survives_def shifted_def enumerate_eq_zip)
qed

theorem delay_subtitles_elides_and_renumbers_counterexample:
  "delay_subtitles
     [\<lparr>number = 1, start = \<lparr>millis = 1000\<rparr>, end' = \<lparr>millis = 2000\<rparr>, text' = [''a'']\<rparr>,
      \<lparr>number = 10 ^ 4300, start = \<lparr>millis = 100\<rparr>, end' = \<lparr>millis = 500\<rparr>, text' = [''b'']\<rparr>]
     (- 1000)
   = Inl (ValueError [''Exceeds the limit (4300 digits) for integer string conversion; use sys.set_int_max_str_digits() to increase the limit''])"
proof -
  have n: "\<not> convertible (10 ^ 4300)"
    by (rule not_convertible_limit [unfolded int_max_str_digits_def])
  have e: "millis \<lparr>millis = 500\<rparr> + - 1000 < 0"
    by simp
  from unconvertible_drop_raises [OF n e,
      of "[\<lparr>number = 1, start = \<lparr>millis = 1000\<rparr>, end' = \<lparr>millis = 2000\<rparr>, text' = [''a'']\<rparr>]"
         "\<lparr>millis = 100\<rparr>" "[''b'']" "[]"]
  show ?thesis
    by (simp only: append.simps str_limit_error_text)
qed

text \<open>
  Claim C7, as amended.  \<open>delay_subtitles\<close> never raises \<open>NegativeTimestampException\<close>:
  delaying a start, done with \<open>clamp_to_zero\<close> set, never raises; and when delaying the
  end of a record raises it, the exception is caught in the loop, which skips the
  record and formats a notice for it.  Formatting the notice raises \<open>ValueError\<close> when
  the number of the record has more than 4300 decimal digits, and that is the only
  exception that leaves \<open>delay_subtitles\<close>.  So for every list whose dropped records
  have numbers of at most 4300 digits, as every list that \<open>parse_srt_file\<close> returns has,
  and every offset, \<open>delay_subtitles\<close> raises nothing, and prints the notices of the
  dropped records in order.
\<close>

theorem delay_subtitles_never_raises:
  "delay_subtitles subs d \<noteq> Inl NegativeTimestampException
   \<and> (\<forall>exn. delayed_by t d True \<noteq> Inl exn)
   \<and> (\<forall>rv printed. delay_one d (rv, printed) sub =
         (if delayed_by (end' sub) d False = Inl NegativeTimestampException
          then if convertible (number sub)
               then Inr (rv, printed @ [notice_text sub])
               else Inl str_limit_error
          else Inr (rv @ [shifted d (Suc (length rv)) sub], printed)))
   \<and> delay_subtitles subs d =
         (if dropped_convertible d subs
          then Inr (delayed_records d subs,
                 map notice_text
                   (filter (\<lambda>sub. delayed_by (end' sub) d False = Inl NegativeTimestampException)
                      subs))
          else Inl str_limit_error)
   \<and> (dropped_convertible d subs \<longrightarrow> (\<forall>exn. delay_subtitles subs d \<noteq> Inl exn))
   \<and> (parse_srt_file doc = Inr subs' \<longrightarrow> (\<forall>exn. delay_subtitles subs' d \<noteq> Inl exn))"
proof (intro conjI allI impI)
  show "delay_subtitles subs d \<noteq> Inl NegativeTimestampException"
    by (simp add: delay_subtitles_result str_limit_error_def)
  show "\<And>exn. delayed_by t d True \<noteq> Inl exn"
    by (simp add: delayed_by_def)
  show "\<And>rv printed. delay_one d (rv, printed) sub =
         (if delayed_by (end' sub) d False = Inl NegativeTimestampException
          then if convertible (number sub)
               then Inr (rv, printed @ [notice_text sub])
               else Inl str_limit_error
          else Inr (rv @ [shifted d (Suc (length rv)) sub], printed))"
    using delay_one_survives [of d sub] delay_one_dropped [of d sub] delay_one_raises [of d sub]
    by (simp add: delayed_by_def survives_def not_le)
  show "delay_subtitles subs d =
         (if dropped_convertible d subs
          then Inr (delayed_records d subs,
                 map notice_text
                   (filter (\<lambda>sub. delayed_by (end' sub) d False = Inl NegativeTimestampException)
                      subs))
          else Inl str_limit_error)"
    by (simp add: delay_subtitles_result removal_notices_def survives_def delayed_by_def not_le)
  show "\<And>exn. dropped_convertible d subs \<Longrightarrow> delay_subtitles subs d \<noteq> Inl exn"
    by (simp add: delay_subtitles_result)
  show "\<And>exn. parse_srt_file doc = Inr subs' \<Longrightarrow> delay_subtitles subs' d \<noteq> Inl exn"
    using parsed_dropped_convertible [of doc subs' d] by (simp add: delay_subtitles_result)
qed

theorem delay_subtitles_never_raises_witness:
  "delay_subtitles
     [\<lparr>number = 5, start = \<lparr>millis = 100\<rparr>, end' = \<lparr>millis = 500\<rparr>, text' = [''a'']\<rparr>,
      \<lparr>number = 9, start = \<lparr>millis = 600\<rparr>, end' = \<lparr>millis = 2000\<rparr>, text' = [''b'']\<rparr>]
     (- 1000)
   = Inr ([\<lparr>number = 1, start = \<lparr>millis = 0\<rparr>, end' = \<lparr>millis = 1000\<rparr>, text' = [''b'']\<rparr>],
          [''End of subtitle 5 was advanced before 00:00:00,000 so the whole subtitle was removed.''])
   \<and> delay_subtitles
         [\<lparr>number = 1, start = \<lparr>millis = 1000\<rparr>, end' = \<lparr>millis = 2000\<rparr>, text' = [''Hello'']\<rparr>]
         (- 3000)
       \<noteq> Inl str_limit_error"
proof -
  let ?subs = "[\<lparr>number = 5, start = \<lparr>millis = 100\<rparr>, end' = \<lparr>millis = 500\<rparr>, text' = [''a'']\<rparr>,
      \<lparr>number = 9, start = \<lparr>millis = 600\<rparr>, end' = \<lparr>millis = 2000\<rparr>, text' = [''b'']\<rparr>]"
  let ?parsed = "[\<lparr>number = 1, start = \<lparr>millis = 1000\<rparr>, end' = \<lparr>millis = 2000\<rparr>, text' = [''Hello'']\<rparr>]"
  have "convertible 5"
    by (rule convertible_below_1000) simp
  then have h: "dropped_convertible (- 1000) ?subs"
    by (simp add: dropped_convertible_def survives_def)
  have p: "parse_srt_file [''1'', ''00:00:01,000 --> 00:00:02,000'', ''Hello''] = Inr ?parsed"
    by code_simp
  note inst = delay_subtitles_never_raises
    [of ?subs "- 1000" "\<lparr>millis = 100\<rparr>"
        "\<lparr>number = 5, start = \<lparr>millis = 100\<rparr>, end' = \<lparr>millis = 500\<rparr>, text' = [''a'']\<rparr>"
        "[''1'', ''00:00:01,000 --> 00:00:02,000'', ''Hello'']" ?parsed]
  note inst' = delay_subtitles_never_raises
    [of ?parsed "- 3000" "\<lparr>millis = 100\<rparr>"
        "\<lparr>number = 5, start = \<lparr>millis = 100\<rparr>, end' = \<lparr>millis = 500\<rparr>, text' = [''a'']\<rparr>"
        "[''1'', ''00:00:01,000 --> 00:00:02,000'', ''Hello'']" ?parsed]
  have "delay_subtitles ?subs (- 1000) =
          Inr (delayed_records (- 1000) ?subs,
               map notice_text
                 (filter (\<lambda>sub. delayed_by (end' sub) (- 1000) False
                             = Inl NegativeTimestampException) ?subs))"
    using inst h by (simp only: if_True)
  moreover have "delayed_records (- 1000) ?subs =
      [\<lparr>number = 1, start = \<lparr>millis = 0\<rparr>, end' = \<lparr>millis = 1000\<rparr>, text' = [''b'']\<rparr>]"
    by (simp add: delayed_records_def survives_def shifted_def enumerate_eq_zip)
  moreover have "map notice_text
      (filter (\<lambda>sub. delayed_by (end' sub) (- 1000) False = Inl NegativeTimestampException) ?subs)
      = [''End of subtitle 5 was advanced before 00:00:00,000 so the whole subtitle was removed.'']"
    by (simp add: delayed_by_def notice_text_def decimal_text_def str_nat.simps digit_chr_def
        char_of_eq_iff)
  moreover have "delay_subtitles ?parsed (- 3000) \<noteq> Inl str_limit_error"
    using inst' p by blast
  ultimately show ?thesis
    by (simp only:) simp
qed

theorem delay_subtitles_never_raises_counterexample:
  "delay_subtitles
     [\<lparr>number = 10 ^ 4300, start = \<lparr>millis = 0\<rparr>, end' = \<lparr>millis = 0\<rparr>, text' = [''x'']\<rparr>]
     (- 1)
   = Inl (ValueError [''Exceeds the limit (4300 digits) for integer string conversion; use sys.set_int_max_str_digits() to increase the limit''])"
proof -
  have n: "\<not> convertible (10 ^ 4300)"
    by (rule not_convertible_limit [unfolded int_max_str_digits_def])
  have e: "millis \<lparr>millis = 0\<rparr> + - 1 < 0"
    by simp
  from unconvertible_drop_raises [OF n e, of "[]" "\<lparr>millis = 0\<rparr>" "[''x'']" "[]"]
  show ?thesis
    by (simp only: append.simps str_limit_error_text)
qed

section \<open>Properties of parsing and formatting\<close>

text \<open>
  Claim C1, as amended.  For every timestamp of at least 0 and at most 86399999
  milliseconds (below 24 hours), parsing its formatted text gives the timestamp back.
  At 24 hours and above the formatted text has an hour field beyond 23, which the
  pattern of \<open>from_str\<close> refuses: see the counterexample.
\<close>

theorem from_str_format_roundtrip:
  fixes t :: Timestamp
  shows "0 \<le> millis t \<and> millis t \<le> 86399999 \<longrightarrow>
           (\<exists>s. Timestamp_str t = Inr s \<and> from_str s = Inr t)"
proof
  assume b: "0 \<le> millis t \<and> millis t \<le> 86399999"
  obtain n where t: "t = \<lparr>millis = n\<rparr>"
    by (cases t) simp
  with b have "0 \<le> n" "n < 86400000"
    by simp_all
  then show "\<exists>s. Timestamp_str t = Inr s \<and> from_str s = Inr t"
    unfolding t by (rule from_str_Timestamp_str)
qed

theorem from_str_format_roundtrip_witness:
  "Timestamp_str \<lparr>millis = 86399999\<rparr> = Inr ''23:59:59,999''
   \<and> from_str ''23:59:59,999'' = Inr \<lparr>millis = 86399999\<rparr>"
proof -
  have s: "Timestamp_str \<lparr>millis = 86399999\<rparr> = Inr ''23:59:59,999''"
    by code_simp
  from from_str_format_roundtrip [of "\<lparr>millis = 86399999\<rparr>"] s show ?thesis
    by simp
qed

theorem from_str_format_roundtrip_counterexample:
  "(0::int) \<le> 86400000
   \<and> Timestamp_str \<lparr>millis = 86400000\<rparr> = Inr ''24:00:00,000''
   \<and> from_str ''24:00:00,000''
       = Inl (ValueError [''24:00:00,000 is not a valid timestamp''])
   \<and> from_str ''24:00:00,000'' \<noteq> Inr \<lparr>millis = 86400000\<rparr>"
  by code_simp

text \<open>
  Claim C5.  \<open>from_str\<close> succeeds exactly on the texts made of an hour field, a colon,
  a minute field, a colon, a second field, a comma and a millisecond field with nothing
  else, the fields as the specification describes them.  On such a text it returns the
  timestamp of \<open>ms + 1000*s + 60000*m + 3600000*h\<close> milliseconds; on every other
  text it raises \<open>ValueError\<close> (the specification's FormatError).
\<close>

theorem from_str_accepts_exactly_the_pattern:
  "(timestamp_fields h m sec d \<longrightarrow>
      from_str (timestamp_text h m sec d) = Inr (timestamp_value h m sec d))
   \<and> (from_str s = Inr t \<longrightarrow>
        (\<exists>h m sec d. timestamp_fields h m sec d \<and> s = timestamp_text h m sec d
           \<and> t = timestamp_value h m sec d))
   \<and> (\<not> (\<exists>h m sec d. timestamp_fields h m sec d \<and> s' = timestamp_text h m sec d) \<longrightarrow>
        from_str s' = Inl (ValueError [s' @ '' is not a valid timestamp'']))"
  using from_str_ok [of h m sec d] from_str_Inr_D [of s t] from_str_not_ok [of s']
  by blast

theorem from_str_accepts_exactly_the_pattern_witness:
  "from_str ''1:2:3,4'' = Inr \<lparr>millis = 3723004\<rparr>
   \<and> (\<exists>h m sec d. timestamp_fields h m sec d \<and> ''23:59:59,999'' = timestamp_text h m sec d
          \<and> \<lparr>millis = 86399999\<rparr> = timestamp_value h m sec d)
   \<and> \<not> (\<exists>h m sec d. timestamp_fields h m sec d \<and> ''00:60:00,000'' = timestamp_text h m sec d)
   \<and> from_str ''00:60:00,000'' = Inl (ValueError [''00:60:00,000 is not a valid timestamp''])"
proof -
  note inst = from_str_accepts_exactly_the_pattern
    [of "''1''" "''2''" "''3''" "''4''" "''23:59:59,999''" "\<lparr>millis = 86399999\<rparr>" "''00:60:00,000''"]
  have f: "timestamp_fields ''1'' ''2'' ''3'' ''4''"
    by code_simp
  have v: "timestamp_text ''1'' ''2'' ''3'' ''4'' = ''1:2:3,4''"
    "timestamp_value ''1'' ''2'' ''3'' ''4'' = \<lparr>millis = 3723004\<rparr>"
    by code_simp+
  have ok: "from_str ''23:59:59,999'' = Inr \<lparr>millis = 86399999\<rparr>"
    by code_simp
  have bad: "from_str ''00:60:00,000'' = Inl (ValueError [''00:60:00,000 is not a valid timestamp''])"
    by code_simp
  have no: "\<not> (\<exists>h m sec d. timestamp_fields h m sec d \<and> ''00:60:00,000'' = timestamp_text h m sec d)"
  proof
    assume "\<exists>h m sec d. timestamp_fields h m sec d \<and> ''00:60:00,000'' = timestamp_text h m sec d"
    then obtain h m sec d where "timestamp_fields h m sec d"
      "''00:60:00,000'' = timestamp_text h m sec d"
      by blast
    with from_str_accepts_exactly_the_pattern [of h m sec d] bad show False
      by simp
  qed
  from inst f v ok no show ?thesis
    by simp
qed

text \<open>
  Claim C8.  For every text of the canonical, fully zero-padded form (a two-digit hour
  from 00 to 23, two-digit minutes and seconds from 00 to 59, and three millisecond
  digits), parsing succeeds and formatting the parsed timestamp gives the text back.
\<close>

theorem format_from_str_canonical:
  "timestamp_fields h m sec d \<and> length h = 2 \<and> length m = 2 \<and> length sec = 2 \<and> length d = 3
   \<longrightarrow> (\<exists>t. from_str (timestamp_text h m sec d) = Inr t
              \<and> Timestamp_str t = Inr (timestamp_text h m sec d))"
  using from_str_ok [of h m sec d] Timestamp_str_timestamp_value [of h m sec d]
  by simp

theorem format_from_str_canonical_witness:
  "\<exists>t. from_str ''01:02:03,004'' = Inr t \<and> Timestamp_str t = Inr ''01:02:03,004''"
proof -
  have f: "timestamp_fields ''01'' ''02'' ''03'' ''004''"
    by code_simp
  have v: "timestamp_text ''01'' ''02'' ''03'' ''004'' = ''01:02:03,004''"
    by code_simp
  from format_from_str_canonical [of "''01''" "''02''" "''03''" "''004''"] f v show ?thesis
    by simp
qed

text \<open>
  Claim C10.  Every timestamp that \<open>from_str\<close> returns has between 0 and 86399999
  milliseconds, so its formatted text starts with a two-digit hour field.  By contrast
  \<open>delayed_by\<close> with an offset of 86400000 or more, on a non-negative timestamp,
  returns a timestamp of 86400000 milliseconds or more, which no text parses to.
\<close>

theorem from_str_below_24_hours:
  "(from_str s = Inr t \<longrightarrow>
      0 \<le> millis t \<and> millis t \<le> 86399999
      \<and> (\<exists>hh rest. Timestamp_str t = Inr (hh @ '':'' @ rest) \<and> length hh = 2 \<and> list_all isdecimal hh))
   \<and> (0 \<le> millis u \<and> 86400000 \<le> d \<longrightarrow>
        (\<exists>u'. delayed_by u d X = Inr u' \<and> 86400000 \<le> millis u'
           \<and> (\<forall>s'. from_str s' \<noteq> Inr u')))"
proof (intro conjI impI)
  assume "from_str s = Inr t"
  then obtain h m sec d where f: "timestamp_fields h m sec d" and t: "t = timestamp_value h m sec d"
    using from_str_Inr_D by blast
  from timestamp_value_bounds [OF f] show b: "0 \<le> millis t" "millis t \<le> 86399999"
    by (simp_all add: t)
  obtain n where n: "t = \<lparr>millis = n\<rparr>"
    by (cases t) simp
  with b have r: "0 \<le> n" "n < 86400000"
    by simp_all
  then have "nat (n div 3600000) < 100"
    by auto
  from two_digits_shape [OF this] Timestamp_str_canonical [OF r]
  show "\<exists>hh rest. Timestamp_str t = Inr (hh @ '':'' @ rest) \<and> length hh = 2 \<and> list_all isdecimal hh"
    unfolding n timestamp_text_def by blast
next
  assume a: "0 \<le> millis u \<and> 86400000 \<le> d"
  let ?u' = "\<lparr>millis = millis u + d\<rparr>"
  have 1: "delayed_by u d X = Inr ?u'"
    using a by (simp add: delayed_by_def)
  have 2: "86400000 \<le> millis ?u'"
    using a by simp
  have 3: "\<forall>s'. from_str s' \<noteq> Inr ?u'"
  proof (intro allI notI)
    fix s'
    assume "from_str s' = Inr ?u'"
    then obtain h m sec d where "timestamp_fields h m sec d" "?u' = timestamp_value h m sec d"
      using from_str_Inr_D by blast
    with timestamp_value_bounds [of h m sec d] 2 show False
      by simp
  qed
  from 1 2 3 show "\<exists>u'. delayed_by u d X = Inr u' \<and> 86400000 \<le> millis u' \<and> (\<forall>s'. from_str s' \<noteq> Inr u')"
    by blast
qed

theorem from_str_below_24_hours_witness:
  "(0 \<le> millis \<lparr>millis = 86399999\<rparr> \<and> millis \<lparr>millis = 86399999\<rparr> \<le> 86399999
      \<and> (\<exists>hh rest. Timestamp_str \<lparr>millis = 86399999\<rparr> = Inr (hh @ '':'' @ rest) \<and> length hh = 2
             \<and> list_all isdecimal hh))
   \<and> (\<exists>u'. delayed_by \<lparr>millis = 0\<rparr> 86400000 False = Inr u' \<and> 86400000 \<le> millis u'
          \<and> (\<forall>s'. from_str s' \<noteq> Inr u'))"
proof -
  have ok: "from_str ''23:59:59,999'' = Inr \<lparr>millis = 86399999\<rparr>"
    by code_simp
  from from_str_below_24_hours [of "''23:59:59,999''" "\<lparr>millis = 86399999\<rparr>" "\<lparr>millis = 0\<rparr>" 86400000 False]
    ok show ?thesis
    by simp
qed

section \<open>Properties of the parser\<close>

text \<open>
  Claim C3, as amended.  A document of N well-formed blocks whose numbers have at most
  4300 digits, one blank line between two of them (the blank lines need not be alike),
  with or without a blank line after the last, parses to exactly N records in the order
  of the blocks, each carrying the number, the two timestamps and the trimmed text
  lines of its block, in order.  The witness has a block with two text lines.  A
  well-formed block with a longer number makes the parser raise: see the
  counterexample.
\<close>

theorem parse_srt_file_well_formed:
  "(list_all (\<lambda>(b, blank). readable b \<and> is_blank blank) bs \<longrightarrow>
      parse_srt_file (separated bs) = Inr (records_of bs)
      \<and> length (records_of bs) = length bs)
   \<and> (list_all (\<lambda>(b, blank). readable b \<and> is_blank blank) bs' \<and> readable b' \<longrightarrow>
        parse_srt_file (separated bs' @ block_lines b') = Inr (records_of bs' @ [record_of b'])
        \<and> length (records_of bs' @ [record_of b']) = Suc (length bs'))
   \<and> (is_blank blank \<longrightarrow> parse_srt_file [blank] = Inr [])"
proof (intro conjI impI)
  assume "list_all (\<lambda>(b, blank). readable b \<and> is_blank blank) bs"
  from parse_separated [OF this, of "[]"]
  show "parse_srt_file (separated bs) = Inr (records_of bs)"
    by (simp add: parse_srt_file_def parser_init_between_blocks bind_Inr
        parse_end_between_blocks)
  show "length (records_of bs) = length bs"
    by (simp add: records_of_def)
next
  assume a: "list_all (\<lambda>(b, blank). readable b \<and> is_blank blank) bs' \<and> readable b'"
  then have wf: "well_formed b'"
    by (simp add: readable_def)
  from a parse_separated [of bs' "[]"] parse_block [of b' "records_of bs'"]
  show "parse_srt_file (separated bs' @ block_lines b') = Inr (records_of bs' @ [record_of b'])"
    by (simp add: parse_srt_file_def parser_init_between_blocks parse_lines_append bind_Inr
        parse_end_in_block [OF wf])
  show "length (records_of bs' @ [record_of b']) = Suc (length bs')"
    by (simp add: records_of_def)
next
  assume "is_blank blank"
  then show "parse_srt_file [blank] = Inr []"
    by (simp add: parse_srt_file_def parser_init_between_blocks is_blank_def bind_Inr
        parse_blank_between_blocks parse_end_between_blocks)
qed

theorem parse_srt_file_well_formed_witness:
  "parse_srt_file
     [''1'' @ [CHR 0x0A], ''00:00:01,000 --> 00:00:02,000'' @ [CHR 0x0A],
      ''Hello'' @ [CHR 0x0A], '' there '' @ [CHR 0x0A], [CHR 0x0A],
      ''2'' @ [CHR 0x0A], ''00:00:05,000 --> 00:00:06,000'' @ [CHR 0x0A],
      ''World'' @ [CHR 0x0A], '' '' @ [CHR 0x0A]]
   = Inr [\<lparr>number = 1, start = \<lparr>millis = 1000\<rparr>, end' = \<lparr>millis = 2000\<rparr>,
            text' = [''Hello'', ''there'']\<rparr>,
          \<lparr>number = 2, start = \<lparr>millis = 5000\<rparr>, end' = \<lparr>millis = 6000\<rparr>,
            text' = [''World'']\<rparr>]
   \<and> parse_srt_file
     [''1'' @ [CHR 0x0A], ''00:00:01,000 --> 00:00:02,000'' @ [CHR 0x0A],
      ''Hello'' @ [CHR 0x0A], '' there '' @ [CHR 0x0A], [CHR 0x0A],
      ''2'' @ [CHR 0x0A], ''00:00:05,000 --> 00:00:06,000'' @ [CHR 0x0A], ''World'']
   = Inr [\<lparr>number = 1, start = \<lparr>millis = 1000\<rparr>, end' = \<lparr>millis = 2000\<rparr>,
            text' = [''Hello'', ''there'']\<rparr>,
          \<lparr>number = 2, start = \<lparr>millis = 5000\<rparr>, end' = \<lparr>millis = 6000\<rparr>,
            text' = [''World'']\<rparr>]
   \<and> parse_srt_file [[CHR 0x0A]] = Inr []"
proof -
  let ?b1 = "\<lparr>number_line = ''1'' @ [CHR 0x0A], start_part = ''00:00:01,000 '',
              end_part = '' 00:00:02,000'' @ [CHR 0x0A],
              text_lines = [''Hello'' @ [CHR 0x0A], '' there '' @ [CHR 0x0A]]\<rparr>"
  let ?b2 = "\<lparr>number_line = ''2'' @ [CHR 0x0A], start_part = ''00:00:05,000 '',
              end_part = '' 00:00:06,000'' @ [CHR 0x0A], text_lines = [''World'' @ [CHR 0x0A]]\<rparr>"
  let ?b3 = "\<lparr>number_line = ''2'' @ [CHR 0x0A], start_part = ''00:00:05,000 '',
              end_part = '' 00:00:06,000'' @ [CHR 0x0A], text_lines = [''World'']\<rparr>"
  let ?r1 = "\<lparr>number = 1, start = \<lparr>millis = 1000\<rparr>, end' = \<lparr>millis = 2000\<rparr>,
              text' = [''Hello'', ''there'']\<rparr>"
  let ?r2 = "\<lparr>number = 2, start = \<lparr>millis = 5000\<rparr>, end' = \<lparr>millis = 6000\<rparr>,
              text' = [''World'']\<rparr>"
  have wf: "well_formed ?b1" "well_formed ?b2" "well_formed ?b3"
    by code_simp+
  have short: "length (strip (number_line ?b1)) \<le> int_max_str_digits"
    "length (strip (number_line ?b2)) \<le> int_max_str_digits"
    "length (strip (number_line ?b3)) \<le> int_max_str_digits"
    by code_simp+
  have blank: "is_blank [CHR 0x0A]" "is_blank ('' '' @ [CHR 0x0A])"
    by code_simp+
  have recs: "record_of ?b1 = ?r1" "record_of ?b2 = ?r2" "record_of ?b3 = ?r2"
    by code_simp+
  note inst = parse_srt_file_well_formed
    [of "[(?b1, [CHR 0x0A]), (?b2, '' '' @ [CHR 0x0A])]" "[(?b1, [CHR 0x0A])]" ?b3 "[CHR 0x0A]"]
  have all: "list_all (\<lambda>(b, blank). readable b \<and> is_blank blank)
               [(?b1, [CHR 0x0A]), (?b2, '' '' @ [CHR 0x0A])]"
    "list_all (\<lambda>(b, blank). readable b \<and> is_blank blank) [(?b1, [CHR 0x0A])]"
    "readable ?b3"
    using wf short blank by (simp_all add: readable_def)
  have 1: "parse_srt_file (separated [(?b1, [CHR 0x0A]), (?b2, '' '' @ [CHR 0x0A])])
             = Inr (records_of [(?b1, [CHR 0x0A]), (?b2, '' '' @ [CHR 0x0A])])"
    using inst all by blast
  have 2: "parse_srt_file (separated [(?b1, [CHR 0x0A])] @ block_lines ?b3)
             = Inr (records_of [(?b1, [CHR 0x0A])] @ [record_of ?b3])"
    using inst all by blast
  have 3: "parse_srt_file [[CHR 0x0A]] = Inr []"
    using inst blank by blast
  have docs: "separated [(?b1, [CHR 0x0A]), (?b2, '' '' @ [CHR 0x0A])] =
     [''1'' @ [CHR 0x0A], ''00:00:01,000 --> 00:00:02,000'' @ [CHR 0x0A],
      ''Hello'' @ [CHR 0x0A], '' there '' @ [CHR 0x0A], [CHR 0x0A],
      ''2'' @ [CHR 0x0A], ''00:00:05,000 --> 00:00:06,000'' @ [CHR 0x0A],
      ''World'' @ [CHR 0x0A], '' '' @ [CHR 0x0A]]"
    "separated [(?b1, [CHR 0x0A])] @ block_lines ?b3 =
     [''1'' @ [CHR 0x0A], ''00:00:01,000 --> 00:00:02,000'' @ [CHR 0x0A],
      ''Hello'' @ [CHR 0x0A], '' there '' @ [CHR 0x0A], [CHR 0x0A],
      ''2'' @ [CHR 0x0A], ''00:00:05,000 --> 00:00:06,000'' @ [CHR 0x0A], ''World'']"
    by (simp_all add: separated_def block_lines_def)
  have rs: "records_of [(?b1, [CHR 0x0A]), (?b2, '' '' @ [CHR 0x0A])] = [?r1, ?r2]"
    "records_of [(?b1, [CHR 0x0A])] @ [record_of ?b3] = [?r1, ?r2]"
    using recs by (simp_all add: records_of_def)
  from 1 2 3 show ?thesis
    unfolding docs rs by blast
qed

theorem parse_srt_file_well_formed_counterexample:
  "well_formed \<lparr>number_line = replicate 4301 (CHR ''1''), start_part = ''00:00:01,000 '',
                 end_part = '' 00:00:02,000'', text_lines = [''Hello'']\<rparr>
   \<and> parse_srt_file
        (block_lines \<lparr>number_line = replicate 4301 (CHR ''1''), start_part = ''00:00:01,000 '',
                  end_part = '' 00:00:02,000'', text_lines = [''Hello'']\<rparr>)
     = Inl (ValueError [''Exceeds the limit (4300 digits) for integer string conversion: value has 4301 digits; use sys.set_int_max_str_digits() to increase the limit''])"
proof -
  have one: "isdecimal (CHR ''1'')" "\<not> isspace (CHR ''1'')"
    by code_simp+
  have len: "int_max_str_digits < length (replicate 4301 (CHR ''1''))"
    by (simp only: length_replicate int_max_str_digits_def)
  have ts: "is_timestamp_text (strip ''00:00:01,000 '')" "is_timestamp_text (strip '' 00:00:02,000'')"
    by code_simp+
  have body: "[''Hello''] \<noteq> []" "list_all (\<lambda>l. strip l \<noteq> []) [''Hello'']"
    by code_simp+
  from long_number_block [OF decimal_replicate [OF one(1)] no_space_replicate [OF one(2)] len ts body]
  show ?thesis
    by (simp only: length_replicate int_limit_error_4301)
qed

text \<open>
  Claim C9, as amended.  Every record that \<open>parse_srt_file\<close> returns has a number of at
  least 0, and every record that \<open>delay_subtitles\<close> returns has a number of at least 1.
  The parser takes the number line as it stands, so the number 0 is read and kept: see
  the counterexample.
\<close>

theorem record_numbers:
  "(parse_srt_file doc = Inr subs \<longrightarrow> (\<forall>s\<in>set subs. 0 \<le> number s))
   \<and> (delay_subtitles subs' d = Inr (rv, printed) \<longrightarrow> (\<forall>s\<in>set rv. 1 \<le> number s))"
proof (intro conjI impI)
  assume "parse_srt_file doc = Inr subs"
  from parse_srt_file_numbers [OF this] show "\<forall>s\<in>set subs. 0 \<le> number s"
    by (simp add: list_all_iff)
next
  assume "delay_subtitles subs' d = Inr (rv, printed)"
  then have "rv = delayed_records d subs'"
    by (rule delay_subtitles_records)
  then show "\<forall>s\<in>set rv. 1 \<le> number s"
    using delayed_records_numbers by blast
qed

theorem record_numbers_counterexample:
  "parse_srt_file [''0'', ''00:00:00,000 --> 00:00:01,000'', ''x'']
     = Inr [\<lparr>number = 0, start = \<lparr>millis = 0\<rparr>, end' = \<lparr>millis = 1000\<rparr>, text' = [''x'']\<rparr>]
   \<and> \<not> 1 \<le> number \<lparr>number = 0, start = \<lparr>millis = 0\<rparr>, end' = \<lparr>millis = 1000\<rparr>, text' = [''x'']\<rparr>"
  by code_simp

theorem record_numbers_witness:
  "parse_srt_file [''0'', ''00:00:00,000 --> 00:00:01,000'', ''x'']
     = Inr [\<lparr>number = 0, start = \<lparr>millis = 0\<rparr>, end' = \<lparr>millis = 1000\<rparr>, text' = [''x'']\<rparr>]
   \<and> 0 \<le> number \<lparr>number = 0, start = \<lparr>millis = 0\<rparr>, end' = \<lparr>millis = 1000\<rparr>, text' = [''x'']\<rparr>
   \<and> delay_subtitles
         [\<lparr>number = 0, start = \<lparr>millis = 0\<rparr>, end' = \<lparr>millis = 1000\<rparr>, text' = [''x'']\<rparr>] 500
       = Inr ([\<lparr>number = 1, start = \<lparr>millis = 500\<rparr>, end' = \<lparr>millis = 1500\<rparr>, text' = [''x'']\<rparr>], [])
   \<and> 1 \<le> number \<lparr>number = 1, start = \<lparr>millis = 500\<rparr>, end' = \<lparr>millis = 1500\<rparr>, text' = [''x'']\<rparr>"
proof -
  have p: "parse_srt_file [''0'', ''00:00:00,000 --> 00:00:01,000'', ''x'']
     = Inr [\<lparr>number = 0, start = \<lparr>millis = 0\<rparr>, end' = \<lparr>millis = 1000\<rparr>, text' = [''x'']\<rparr>]"
    by code_simp
  have d: "delay_subtitles [\<lparr>number = 0, start = \<lparr>millis = 0\<rparr>, end' = \<lparr>millis = 1000\<rparr>, text' = [''x'']\<rparr>] 500
     = Inr ([\<lparr>number = 1, start = \<lparr>millis = 500\<rparr>, end' = \<lparr>millis = 1500\<rparr>, text' = [''x'']\<rparr>], [])"
    by code_simp
  from record_numbers [of "[''0'', ''00:00:00,000 --> 00:00:01,000'', ''x'']" _ _ 500] p d
  show ?thesis
    by simp
qed

text \<open>
  Claim C6.  \<open>parse_srt_file\<close> raises, and returns no records, on each of these inputs,
  wherever in the file they stand after lines \<open>pre\<close> that parse: a line where a number
  is expected that is not blank and has a character other than a decimal digit; a line
  where the timestamps are expected that does not split at the arrow into two parts;
  such a line with a part that is not a timestamp text (a minute of 60, say); a
  timestamp line followed at once by a blank line; a timestamp line that ends the
  file; and a number line that ends the file.
\<close>

theorem parse_srt_file_rejects:
  "(parse_lines parser_init pre1 = Inr p1 \<and> state p1 = NEW_SUBTITLE
      \<and> strip l1 \<noteq> [] \<and> \<not> list_all isdecimal (strip l1)
      \<longrightarrow> (\<exists>args. parse_srt_file (pre1 @ l1 # post1) = Inl (ValueError args)))
   \<and> (parse_lines parser_init pre2 = Inr p2 \<and> state p2 = TIMESTAMPS
        \<and> length (py_split (strip l2) ''-->'') \<noteq> 2
      \<longrightarrow> (\<exists>args. parse_srt_file (pre2 @ l2 # post2) = Inl (ValueError args)))
   \<and> (parse_lines parser_init pre3 = Inr p3 \<and> state p3 = TIMESTAMPS
        \<and> py_split (strip l3) ''-->'' = [a3, b3]
        \<and> \<not> (is_timestamp_text (strip a3) \<and> is_timestamp_text (strip b3))
      \<longrightarrow> (\<exists>args. parse_srt_file (pre3 @ l3 # post3) = Inl (ValueError args)))
   \<and> (parse_lines parser_init pre4 = Inr p4 \<and> state p4 = TIMESTAMPS
        \<and> parse_line p4 l4 = Inr q4 \<and> strip k4 = []
      \<longrightarrow> parse_srt_file (pre4 @ l4 # k4 # post4)
            = Inl (ValueError [''expected at least one line of text after timestamps'']))
   \<and> (parse_lines parser_init pre5 = Inr p5 \<and> state p5 = TIMESTAMPS
        \<and> parse_line p5 l5 = Inr q5
      \<longrightarrow> parse_srt_file (pre5 @ [l5])
            = Inl (ValueError [''file ended in the middle of incomplete subtitle'']))
   \<and> (parse_lines parser_init pre6 = Inr p6 \<and> state p6 = TIMESTAMPS
      \<longrightarrow> parse_srt_file pre6
            = Inl (ValueError [''file ended in the middle of incomplete subtitle'']))"
proof (intro conjI impI; elim conjE)
  assume "parse_lines parser_init pre1 = Inr p1" "state p1 = NEW_SUBTITLE"
    "strip l1 \<noteq> []" "\<not> list_all isdecimal (strip l1)"
  then show "\<exists>args. parse_srt_file (pre1 @ l1 # post1) = Inl (ValueError args)"
    using bad_number_line error_after_prefix by blast
next
  assume "parse_lines parser_init pre2 = Inr p2" "state p2 = TIMESTAMPS"
    "length (py_split (strip l2) ''-->'') \<noteq> 2"
  then show "\<exists>args. parse_srt_file (pre2 @ l2 # post2) = Inl (ValueError args)"
    using bad_arrow_line error_after_prefix by blast
next
  assume "parse_lines parser_init pre3 = Inr p3" "state p3 = TIMESTAMPS"
    "py_split (strip l3) ''-->'' = [a3, b3]"
    "\<not> (is_timestamp_text (strip a3) \<and> is_timestamp_text (strip b3))"
  then show "\<exists>args. parse_srt_file (pre3 @ l3 # post3) = Inl (ValueError args)"
    using bad_timestamp_line error_after_prefix by blast
next
  assume a: "parse_lines parser_init pre4 = Inr p4" "state p4 = TIMESTAMPS"
    "parse_line p4 l4 = Inr q4" "strip k4 = []"
  have q: "state q4 = TEXT" "cur_text q4 = []"
    using timestamp_line_read [OF a(2,3)] no_pending_text [OF a(1,2)] by simp_all
  have "parse_srt_file ((pre4 @ [l4]) @ k4 # post4)
          = Inl (ValueError [''expected at least one line of text after timestamps''])"
    by (rule error_after_prefix [OF parse_lines_snoc [OF a(1,3)] blank_without_text [OF q a(4)]])
  then show "parse_srt_file (pre4 @ l4 # k4 # post4)
          = Inl (ValueError [''expected at least one line of text after timestamps''])"
    by simp
next
  assume a: "parse_lines parser_init pre5 = Inr p5" "state p5 = TIMESTAMPS"
    "parse_line p5 l5 = Inr q5"
  have q: "state q5 = TEXT" "cur_text q5 = []"
    using timestamp_line_read [OF a(2,3)] no_pending_text [OF a(1,2)] by simp_all
  show "parse_srt_file (pre5 @ [l5])
          = Inl (ValueError [''file ended in the middle of incomplete subtitle''])"
    by (rule error_at_end [OF parse_lines_snoc [OF a(1,3)] end_without_text [OF q]])
next
  assume "parse_lines parser_init pre6 = Inr p6" "state p6 = TIMESTAMPS"
  then show "parse_srt_file pre6
          = Inl (ValueError [''file ended in the middle of incomplete subtitle''])"
    using end_expecting_timestamps error_at_end by blast
qed

theorem parse_srt_file_rejects_witness:
  "(\<exists>args. parse_srt_file
       [''1'', ''00:00:01,000 --> 00:00:02,000'', ''Hello'', [], ''2a''] = Inl (ValueError args))
   \<and> (\<exists>args. parse_srt_file
       [''1'', ''00:00:01,000 --> 00:00:02,000'', ''Hello'', [], ''2'',
        ''00:00:05,000 -> 00:00:06,000'', ''World''] = Inl (ValueError args))
   \<and> (\<exists>args. parse_srt_file
       [''1'', ''00:00:01,000 --> 00:00:02,000'', ''Hello'', [], ''2'',
        ''00:00:05,000 --> 00:60:06,000'', ''World''] = Inl (ValueError args))
   \<and> parse_srt_file
       [''1'', ''00:00:01,000 --> 00:00:02,000'', ''Hello'', [], ''2'',
        ''00:00:05,000 --> 00:00:06,000'', [], ''3'']
       = Inl (ValueError [''expected at least one line of text after timestamps''])
   \<and> parse_srt_file
       [''1'', ''00:00:01,000 --> 00:00:02,000'', ''Hello'', [], ''2'',
        ''00:00:05,000 --> 00:00:06,000'']
       = Inl (ValueError [''file ended in the middle of incomplete subtitle''])
   \<and> parse_srt_file
       [''1'', ''00:00:01,000 --> 00:00:02,000'', ''Hello'', [], ''2'']
       = Inl (ValueError [''file ended in the middle of incomplete subtitle''])"
proof -
  let ?r = "\<lparr>number = 1, start = \<lparr>millis = 1000\<rparr>, end' = \<lparr>millis = 2000\<rparr>, text' = [''Hello'']\<rparr>"
  let ?pre = "[''1'', ''00:00:01,000 --> 00:00:02,000'', ''Hello'', []]"
  let ?p = "\<lparr>state = NEW_SUBTITLE, subtitles = [?r], cur_number = None, cur_start = None,
             cur_end = None, cur_text = []\<rparr>"
  let ?p' = "\<lparr>state = TIMESTAMPS, subtitles = [?r], cur_number = Some 2, cur_start = None,
             cur_end = None, cur_text = []\<rparr>"
  let ?q = "\<lparr>state = TEXT, subtitles = [?r], cur_number = Some 2,
             cur_start = Some \<lparr>millis = 5000\<rparr>, cur_end = Some \<lparr>millis = 6000\<rparr>,
             cur_text = []\<rparr>"
  have p: "parse_lines parser_init ?pre = Inr ?p" "state ?p = NEW_SUBTITLE"
    by code_simp+
  have p': "parse_lines parser_init (?pre @ [''2'']) = Inr ?p'" "state ?p' = TIMESTAMPS"
    by code_simp+
  have n: "strip ''2a'' \<noteq> []" "\<not> list_all isdecimal (strip ''2a'')"
    by code_simp+
  have a: "length (py_split (strip ''00:00:05,000 -> 00:00:06,000'') ''-->'') \<noteq> 2"
    by code_simp
  have t: "py_split (strip ''00:00:05,000 --> 00:60:06,000'') ''-->''
             = [''00:00:05,000 '', '' 00:60:06,000'']"
    "\<not> (is_timestamp_text (strip ''00:00:05,000 '')
        \<and> is_timestamp_text (strip '' 00:60:06,000''))"
    by code_simp+
  have q: "parse_line ?p' ''00:00:05,000 --> 00:00:06,000'' = Inr ?q"
    by code_simp
  have b: "strip [] = []"
    by code_simp
  note inst = parse_srt_file_rejects
    [of ?pre ?p "''2a''" "[]"
        "?pre @ [''2'']" ?p' "''00:00:05,000 -> 00:00:06,000''" "[''World'']"
        "?pre @ [''2'']" ?p' "''00:00:05,000 --> 00:60:06,000''"
          "''00:00:05,000 ''" "'' 00:60:06,000''" "[''World'']"
        "?pre @ [''2'']" ?p' "''00:00:05,000 --> 00:00:06,000''" ?q "[]" "[''3'']"
        "?pre @ [''2'']" ?p' "''00:00:05,000 --> 00:00:06,000''" ?q
        "?pre @ [''2'']" ?p']
  have 1: "\<exists>args. parse_srt_file (?pre @ ''2a'' # []) = Inl (ValueError args)"
    using inst p n by blast
  have 2: "\<exists>args. parse_srt_file
             ((?pre @ [''2'']) @ ''00:00:05,000 -> 00:00:06,000'' # [''World''])
             = Inl (ValueError args)"
    using inst p' a by blast
  have 3: "\<exists>args. parse_srt_file
             ((?pre @ [''2'']) @ ''00:00:05,000 --> 00:60:06,000'' # [''World''])
             = Inl (ValueError args)"
    using inst p' t by blast
  have 4: "parse_srt_file ((?pre @ [''2'']) @ ''00:00:05,000 --> 00:00:06,000'' # [] # [''3''])
             = Inl (ValueError [''expected at least one line of text after timestamps''])"
    using inst p' q b by blast
  have 5: "parse_srt_file ((?pre @ [''2'']) @ [''00:00:05,000 --> 00:00:06,000''])
             = Inl (ValueError [''file ended in the middle of incomplete subtitle''])"
    using inst p' q by blast
  have 6: "parse_srt_file (?pre @ [''2''])
             = Inl (ValueError [''file ended in the middle of incomplete subtitle''])"
    using inst p' by blast
  from 1 2 3 4 5 6 show ?thesis
    by simp
qed

end
